theory Spec2Isabelle
  imports
    Main
    "HOL-Library.Char_ord"
    "HOL-Library.List_Lexorder"
    "HOL-Library.Product_Lexorder"
    "HOL-Library.AList"
begin

section \<open>Python values and the registry interface\<close>

text \<open>
  The module \<^verbatim>\<open>salt/modules/win_snmp.py\<close> is dynamically typed: the data read from the
  registry, the \<^verbatim>\<open>contact\<close> and \<^verbatim>\<open>location\<close> arguments, and the keys and values of the
  community dictionaries are Python objects that the code compares with \<^verbatim>\<open>==\<close>, tests
  for truth and passes on. They are modelled by one datatype: \<^verbatim>\<open>None\<close>, an unbounded
  integer or a string. Strings are ordered as Python orders them, character by
  character with a proper prefix first.
\<close>

datatype pyval = PyNone | PyInt int | PyStr string

text \<open>Python's truth value (\<^verbatim>\<open>bool(x)\<close>, \<^verbatim>\<open>not x\<close>).\<close>

fun truthy :: "pyval \<Rightarrow> bool" where
  "truthy PyNone = False"
| "truthy (PyInt n) = (n \<noteq> 0)"
| "truthy (PyStr s) = (s \<noteq> [])"

text \<open>Python's \<^verbatim>\<open>str(x)\<close>, as \<^verbatim>\<open>'{}'.format(x)\<close> renders a value.\<close>

fun nat_digits :: "nat \<Rightarrow> string" where
  "nat_digits n =
     (if n < 10 then [char_of (48 + n)]
      else nat_digits (n div 10) @ [char_of (48 + n mod 10)])"

declare nat_digits.simps [simp del]

definition int_str :: "int \<Rightarrow> string" where
  "int_str i = (if i < 0 then CHR ''-'' # nat_digits (nat (- i)) else nat_digits (nat i))"

fun py_str :: "pyval \<Rightarrow> string" where
  "py_str PyNone = ''None''"
| "py_str (PyInt n) = int_str n"
| "py_str (PyStr s) = s"

text \<open>
  \<^verbatim>\<open>str\<close> of a list of strings, for names without quotes or backslashes (all
  the names of this module): each name in single quotes, separated by a comma and a
  space, in square brackets.
\<close>

fun join :: "string \<Rightarrow> string list \<Rightarrow> string" where
  "join sep [] = []"
| "join sep [x] = x"
| "join sep (x # y # rest) = x @ sep @ join sep (y # rest)"

definition quoted :: "string \<Rightarrow> string" where
  "quoted s = CHR 0x27 # s @ [CHR 0x27]"

definition py_repr_names :: "string list \<Rightarrow> string" where
  "py_repr_names names = ''['' @ join '', '' (map quoted names) @ '']''"

text \<open>
  A Python dictionary keeps its keys in insertion order and assigning to a key that is
  present keeps the key's place: an association list, updated with
  \<^const>\<open>AList.update\<close>. Lookup is \<^const>\<open>map_of\<close>. Two dictionaries are equal when
  they have as many keys and every item of the first is an item of the second.
\<close>

type_synonym pydict = "(pyval \<times> pyval) list"

definition dict_eq :: "pydict \<Rightarrow> pydict \<Rightarrow> bool" where
  "dict_eq a b = (length a = length b \<and> list_all (\<lambda>(k, v). map_of b k = Some v) a)"

datatype error =
    SaltInvocationError string
  | CommandExecutionError string
  | TypeError
  | KeyError

text \<open>
  The registry is reached through \<^verbatim>\<open>__utils__\<close>, a table of functions that the loader
  injects: \<^verbatim>\<open>reg.key_exists\<close>, \<^verbatim>\<open>reg.read_value\<close>, \<^verbatim>\<open>reg.list_values\<close>,
  \<^verbatim>\<open>reg.set_value\<close> and \<^verbatim>\<open>reg.delete_value\<close>. The table is a parameter of every
  function of the module, over any type \<open>'s\<close> of registry states. A read returns the
  \<^verbatim>\<open>vdata\<close> item of the dictionary it gets (the only item the module uses) and leaves
  the registry as it is; an enumeration returns a list of entries, each a dictionary
  with a \<^verbatim>\<open>vname\<close> and a \<^verbatim>\<open>vdata\<close> or something that is not a dictionary, or it
  returns something that is not a list. Every call is taken to return.
\<close>

datatype reg_type = REG_SZ | REG_DWORD

datatype entry = Entry pyval pyval | Not_a_dict

datatype listing = Values "entry list" | Not_a_list

record 's utils =
  key_exists :: "'s \<Rightarrow> string \<Rightarrow> string \<Rightarrow> bool"
  read_value :: "'s \<Rightarrow> string \<Rightarrow> string \<Rightarrow> pyval \<Rightarrow> pyval"
  list_values :: "'s \<Rightarrow> string \<Rightarrow> string \<Rightarrow> listing"
  set_value :: "'s \<Rightarrow> string \<Rightarrow> string \<Rightarrow> pyval \<Rightarrow> pyval \<Rightarrow> reg_type \<Rightarrow> 's"
  delete_value :: "'s \<Rightarrow> string \<Rightarrow> string \<Rightarrow> pyval \<Rightarrow> 's"

text \<open>
  The state a call of the module runs in: the registry and the log of the calls made
  through \<^verbatim>\<open>__utils__\<close> so far, oldest first. The log is what makes "no write is
  issued" and "the table is not consulted" statements about the code.
\<close>

datatype reg_call =
    Key_exists string string
  | Read_value string string pyval
  | List_values string string
  | Set_value string string pyval pyval reg_type
  | Delete_value string string pyval

record 's world =
  reg :: 's
  calls :: "reg_call list"

definition reg_key_exists :: "'s utils \<Rightarrow> 's world \<Rightarrow> string \<Rightarrow> string \<Rightarrow> 's world \<times> bool" where
  "reg_key_exists u w hive key =
     (w\<lparr>calls := calls w @ [Key_exists hive key]\<rparr>, key_exists u (reg w) hive key)"

definition reg_read_value ::
  "'s utils \<Rightarrow> 's world \<Rightarrow> string \<Rightarrow> string \<Rightarrow> pyval \<Rightarrow> 's world \<times> pyval" where
  "reg_read_value u w hive key vname =
     (w\<lparr>calls := calls w @ [Read_value hive key vname]\<rparr>, read_value u (reg w) hive key vname)"

definition reg_list_values ::
  "'s utils \<Rightarrow> 's world \<Rightarrow> string \<Rightarrow> string \<Rightarrow> 's world \<times> listing" where
  "reg_list_values u w hive key =
     (w\<lparr>calls := calls w @ [List_values hive key]\<rparr>, list_values u (reg w) hive key)"

definition reg_set_value ::
  "'s utils \<Rightarrow> 's world \<Rightarrow> string \<Rightarrow> string \<Rightarrow> pyval \<Rightarrow> pyval \<Rightarrow> reg_type \<Rightarrow> 's world" where
  "reg_set_value u w hive key vname vdata ty =
     w\<lparr>reg := set_value u (reg w) hive key vname vdata ty,
       calls := calls w @ [Set_value hive key vname vdata ty]\<rparr>"

definition reg_delete_value ::
  "'s utils \<Rightarrow> 's world \<Rightarrow> string \<Rightarrow> string \<Rightarrow> pyval \<Rightarrow> 's world" where
  "reg_delete_value u w hive key vname =
     w\<lparr>reg := delete_value u (reg w) hive key vname,
       calls := calls w @ [Delete_value hive key vname]\<rparr>"

text \<open>The calls that change the registry, and the ones among a log.\<close>

fun is_write :: "reg_call \<Rightarrow> bool" where
  "is_write (Set_value hive key vname vdata ty) = True"
| "is_write (Delete_value hive key vname) = True"
| "is_write c = False"

definition writes :: "reg_call list \<Rightarrow> reg_call list" where
  "writes cs = filter is_write cs"

section \<open>The module's constants\<close>

definition HKEY :: string where
  "HKEY = ''HKLM''"

definition SNMP_KEY :: string where
  "SNMP_KEY = ''SYSTEM'' @ CHR 0x5C # ''CurrentControlSet'' @ CHR 0x5C # ''Services''
     @ CHR 0x5C # ''SNMP'' @ CHR 0x5C # ''Parameters''"

definition AGENT_KEY :: string where
  "AGENT_KEY = SNMP_KEY @ CHR 0x5C # ''RFC1156Agent''"

definition COMMUNITIES_KEY :: string where
  "COMMUNITIES_KEY = SNMP_KEY @ CHR 0x5C # ''ValidCommunities''"

definition SNMP_GPO_KEY :: string where
  "SNMP_GPO_KEY = ''SOFTWARE'' @ CHR 0x5C # ''Policies'' @ CHR 0x5C # ''SNMP''
     @ CHR 0x5C # ''Parameters''"

definition COMMUNITIES_GPO_KEY :: string where
  "COMMUNITIES_GPO_KEY = SNMP_GPO_KEY @ CHR 0x5C # ''ValidCommunities''"

definition PERMISSION_TYPES :: "(string \<times> int) list" where
  "PERMISSION_TYPES =
     [(''None'', 1), (''Notify'', 2), (''Read Only'', 4), (''Read Write'', 8),
      (''Read Create'', 16)]"

definition SERVICE_TYPES :: "(string \<times> int) list" where
  "SERVICE_TYPES =
     [(''None'', 0), (''Physical'', 1), (''Datalink and subnetwork'', 2), (''Internet'', 4),
      (''End-to-end'', 8), (''Applications'', 64)]"

definition get_agent_service_types :: "string list" where
  "get_agent_service_types = map fst SERVICE_TYPES"

definition get_permission_types :: "string list" where
  "get_permission_types = map fst PERMISSION_TYPES"

section \<open>Agent settings\<close>

record agent_settings =
  ret_contact :: pyval
  ret_location :: pyval
  ret_services :: "string list"

text \<open>
  \<^verbatim>\<open>sorted(_SERVICE_TYPES.items(), key=lambda x: (-x[1], x[0]))\<close>: greatest bit value
  first, ties by name.
\<close>

definition sorted_types :: "(string \<times> int) list" where
  "sorted_types = sort_key (\<lambda>x. (- snd x, fst x)) SERVICE_TYPES"

text \<open>
  The loop of \<^verbatim>\<open>get_agent_settings\<close> over \<^verbatim>\<open>sorted_types\<close>, with the bitmask that is
  left and the services found so far. The loop breaks when the bitmask is \<^verbatim>\<open>None\<close>
  or not positive; comparing a string with \<^verbatim>\<open>0\<close> raises \<^verbatim>\<open>TypeError\<close>.
\<close>

fun services_loop :: "(string \<times> int) list \<Rightarrow> pyval \<Rightarrow> string list \<Rightarrow> error + string list" where
  "services_loop [] current_bitmask ret = Inr ret"
| "services_loop ((service, bitmask) # rest) current_bitmask ret =
     (case current_bitmask of
        PyNone \<Rightarrow> Inr ret
      | PyStr s \<Rightarrow> Inl TypeError
      | PyInt c \<Rightarrow>
          if c > 0 then
            (let remaining_bitmask = c - bitmask in
             if remaining_bitmask \<ge> 0
             then services_loop rest (PyInt remaining_bitmask) (ret @ [service])
             else services_loop rest current_bitmask ret)
          else Inr ret)"

text \<open>
  \<^verbatim>\<open>get_agent_settings()\<close>: three reads, then the decomposition of the bitmask. A
  bitmask equal to \<open>0\<close> gives the name of the last of the sorted types. The result is
  the state after the reads with the dictionary returned or the error raised.
\<close>

definition get_agent_settings :: "'s utils \<Rightarrow> 's world \<Rightarrow> 's world \<times> (error + agent_settings)" where
  "get_agent_settings u w =
     (let (w1, contact) = reg_read_value u w HKEY AGENT_KEY (PyStr ''sysContact'');
          (w2, location) = reg_read_value u w1 HKEY AGENT_KEY (PyStr ''sysLocation'');
          (w3, current_bitmask) = reg_read_value u w2 HKEY AGENT_KEY (PyStr ''sysServices'');
          found = (if current_bitmask = PyInt 0 then Inr [fst (last sorted_types)]
                   else services_loop sorted_types current_bitmask [])
      in (w3, case found of
                Inl e \<Rightarrow> Inl e
              | Inr svcs \<Rightarrow>
                  Inr \<lparr>ret_contact = contact, ret_location = location,
                       ret_services = sort svcs\<rparr>))"

text \<open>The validation loop of \<^verbatim>\<open>set_agent_settings\<close>, over the sorted services.\<close>

fun validate_services :: "string list \<Rightarrow> error + unit" where
  "validate_services [] = Inr ()"
| "validate_services (service # rest) =
     (if map_of SERVICE_TYPES service = None
      then Inl (SaltInvocationError
             (''Invalid service '' @ quoted service @ '' specified. Valid services: ''
              @ py_repr_names get_agent_service_types))
      else validate_services rest)"

text \<open>
  \<^verbatim>\<open>sum(_SERVICE_TYPES[service] for service in services)\<close>; a name that is not a key
  raises \<^verbatim>\<open>KeyError\<close>.
\<close>

fun sum_services :: "string list \<Rightarrow> error + int" where
  "sum_services [] = Inr 0"
| "sum_services (service # rest) =
     (case map_of SERVICE_TYPES service of
        None \<Rightarrow> Inl KeyError
      | Some bitmask \<Rightarrow>
          (case sum_services rest of Inl e \<Rightarrow> Inl e | Inr acc \<Rightarrow> Inr (bitmask + acc)))"

text \<open>
  \<^verbatim>\<open>set_agent_settings(contact, location, services)\<close>. An argument left at \<^verbatim>\<open>None\<close> is
  \<^const>\<open>PyNone\<close> for \<^verbatim>\<open>contact\<close> and \<^verbatim>\<open>location\<close> and \<^const>\<open>None\<close> for the list of
  services. The result is the final state with what the call returns or raises.
\<close>

definition set_agent_settings ::
  "'s utils \<Rightarrow> 's world \<Rightarrow> pyval \<Rightarrow> pyval \<Rightarrow> string list option \<Rightarrow> 's world \<times> (error + bool)" where
  "set_agent_settings u w contact location services_arg =
     (let services = map_option (\<lambda>xs. sort (remdups xs)) services_arg in
      case (case services of None \<Rightarrow> Inr () | Some svcs \<Rightarrow> validate_services svcs) of
        Inl e \<Rightarrow> (w, Inl e)
      | Inr _ \<Rightarrow>
         (case get_agent_settings u w of
            (w1, Inl e) \<Rightarrow> (w1, Inl e)
          | (w1, Inr current_settings) \<Rightarrow>
              if contact = ret_contact current_settings
                 \<and> location = ret_location current_settings
                 \<and> services = Some (ret_services current_settings)
              then (w1, Inr True)
              else
                (let w2 = (if contact \<noteq> PyNone \<and> contact \<noteq> ret_contact current_settings
                           then reg_set_value u w1 HKEY AGENT_KEY (PyStr ''sysContact'')
                                  contact REG_SZ
                           else w1);
                     w3 = (if location \<noteq> PyNone \<and> location \<noteq> ret_location current_settings
                           then reg_set_value u w2 HKEY AGENT_KEY (PyStr ''sysLocation'')
                                  location REG_SZ
                           else w2)
                 in case (case services of
                            None \<Rightarrow> Inr w3
                          | Some svcs \<Rightarrow>
                              if set svcs \<noteq> set (ret_services current_settings)
                              then (case sum_services svcs of
                                      Inl e \<Rightarrow> Inl (w3, e)
                                    | Inr vdata \<Rightarrow>
                                        Inr (reg_set_value u w3 HKEY AGENT_KEY
                                               (PyStr ''sysServices'') (PyInt vdata) REG_DWORD))
                              else Inr w3) of
                      Inl (w4, e) \<Rightarrow> (w4, Inl e)
                    | Inr w4 \<Rightarrow>
                       (case get_agent_settings u w4 of
                          (w5, Inl e) \<Rightarrow> (w5, Inl e)
                        | (w5, Inr new_settings) \<Rightarrow>
                            (let failed_settings =
                                   (if contact \<noteq> PyNone \<and> contact \<noteq> ret_contact new_settings
                                    then [''contact''] else [])
                                 @ (if location \<noteq> PyNone \<and> location \<noteq> ret_location new_settings
                                    then [''location''] else [])
                                 @ (case services of
                                      None \<Rightarrow> []
                                    | Some svcs \<Rightarrow>
                                        if svcs \<noteq> ret_services new_settings
                                        then [''services''] else [])
                             in (w5, Inr (failed_settings = [])))))))"

section \<open>Authentication traps\<close>

text \<open>
  \<^verbatim>\<open>get_auth_traps_enabled()\<close>: \<^verbatim>\<open>False\<close> for the sentinel, else
  \<^verbatim>\<open>bool(reg_ret["vdata"] or 0)\<close>, the truth value of the data.
\<close>

definition get_auth_traps_enabled :: "'s utils \<Rightarrow> 's world \<Rightarrow> 's world \<times> bool" where
  "get_auth_traps_enabled u w =
     (let (w1, reg_ret) = reg_read_value u w HKEY SNMP_KEY (PyStr ''EnableAuthenticationTraps'')
      in (w1, if reg_ret = PyStr ''(value not set)'' then False else truthy reg_ret))"

text \<open>
  \<^verbatim>\<open>set_auth_traps_enabled(status)\<close> for a Boolean status; \<^verbatim>\<open>int(status)\<close> is \<open>1\<close> or
  \<open>0\<close>.
\<close>

definition set_auth_traps_enabled :: "'s utils \<Rightarrow> 's world \<Rightarrow> bool \<Rightarrow> 's world \<times> bool" where
  "set_auth_traps_enabled u w status =
     (let vname = ''EnableAuthenticationTraps'';
          (w1, current_status) = get_auth_traps_enabled u w
      in if status = current_status then (w1, True)
         else
           (let vdata = (if status then 1 else 0);
                w2 = reg_set_value u w1 HKEY SNMP_KEY (PyStr vname) (PyInt vdata) REG_DWORD;
                (w3, new_status) = get_auth_traps_enabled u w2
            in (w3, status = new_status)))"

section \<open>Community names\<close>

text \<open>The two loops of \<^verbatim>\<open>get_community_names\<close> over the enumerated values.\<close>

fun gpo_loop :: "entry list \<Rightarrow> pydict \<Rightarrow> pydict" where
  "gpo_loop [] ret = ret"
| "gpo_loop (Not_a_dict # rest) ret = gpo_loop rest ret"
| "gpo_loop (Entry vname vdata # rest) ret =
     gpo_loop rest (AList.update vdata (PyStr ''Managed by GPO'') ret)"

fun permission_name :: "(string \<times> int) list \<Rightarrow> pyval \<Rightarrow> string" where
  "permission_name [] vdata = []"
| "permission_name ((name, val) # rest) vdata =
     (if vdata = PyInt val then name else permission_name rest vdata)"

fun local_loop :: "entry list \<Rightarrow> pydict \<Rightarrow> pydict" where
  "local_loop [] ret = ret"
| "local_loop (Not_a_dict # rest) ret = local_loop rest ret"
| "local_loop (Entry vname vdata # rest) ret =
     local_loop rest
       (AList.update vname (PyStr (permission_name PERMISSION_TYPES vdata)) ret)"

text \<open>
  \<^verbatim>\<open>get_community_names()\<close>: the Group Policy key first, when it exists; the local
  key when that gave nothing.
\<close>

definition get_community_names :: "'s utils \<Rightarrow> 's world \<Rightarrow> 's world \<times> pydict" where
  "get_community_names u w =
     (let (w1, gpo) = reg_key_exists u w HKEY COMMUNITIES_GPO_KEY;
          (w2, ret) =
            (if gpo then
               (let (w', current_values) = reg_list_values u w1 HKEY COMMUNITIES_GPO_KEY
                in (w', case current_values of
                          Values cvs \<Rightarrow> gpo_loop cvs []
                        | Not_a_list \<Rightarrow> []))
             else (w1, []))
      in if ret = [] then
           (let (w3, current_values) = reg_list_values u w2 HKEY COMMUNITIES_KEY
            in (w3, case current_values of
                      Values cvs \<Rightarrow> local_loop cvs ret
                    | Not_a_list \<Rightarrow> ret))
         else (w2, ret))"

text \<open>
  The first loop of \<^verbatim>\<open>set_community_names\<close>: a falsy permission becomes
  \<^verbatim>\<open>"None"\<close> in the caller's dictionary, the permission is looked up in
  \<^verbatim>\<open>_PERMISSION_TYPES\<close>, and \<^verbatim>\<open>values\<close> gets the integer. The loop returns the
  dictionary as the assignments leave it together with \<^verbatim>\<open>values\<close>.
\<close>

fun permission_value :: "pyval \<Rightarrow> int option" where
  "permission_value (PyStr name) = map_of PERMISSION_TYPES name"
| "permission_value p = None"

fun values_loop :: "pyval list \<Rightarrow> pydict \<Rightarrow> pydict \<Rightarrow> error + (pydict \<times> pydict)" where
  "values_loop [] communities vals = Inr (communities, vals)"
| "values_loop (vname # rest) communities vals =
     (case map_of communities vname of
        None \<Rightarrow> Inl KeyError
      | Some p \<Rightarrow>
         (let p' = (if \<not> truthy p then PyStr ''None'' else p);
              communities' = (if \<not> truthy p
                              then AList.update vname (PyStr ''None'') communities
                              else communities)
          in case permission_value p' of
               None \<Rightarrow>
                 Inl (SaltInvocationError
                   (''Invalid permission '' @ quoted (py_str p') @ '' specified. Valid permissions: ''
                    @ ''dict_keys('' @ py_repr_names (map fst PERMISSION_TYPES) @ '')''))
             | Some vdata \<Rightarrow> values_loop rest communities' (AList.update vname (PyInt vdata) vals)))"

text \<open>
  The loop over the current communities: one that is requested is written when its
  current entry differs from the requested integer, one that is not is deleted.
\<close>

fun check_current :: "'s utils \<Rightarrow> pydict \<Rightarrow> pydict \<Rightarrow> 's world \<Rightarrow> 's world" where
  "check_current u [] vals w = w"
| "check_current u ((current_vname, current_perm) # rest) vals w =
     (case map_of vals current_vname of
        Some vdata \<Rightarrow>
          check_current u rest vals
            (if current_perm \<noteq> vdata
             then reg_set_value u w HKEY COMMUNITIES_KEY current_vname vdata REG_DWORD
             else w)
      | None \<Rightarrow>
          check_current u rest vals (reg_delete_value u w HKEY COMMUNITIES_KEY current_vname))"

text \<open>The loop that creates the communities that are not current.\<close>

fun create_new :: "'s utils \<Rightarrow> pydict \<Rightarrow> pydict \<Rightarrow> 's world \<Rightarrow> 's world" where
  "create_new u [] current_communities w = w"
| "create_new u ((vname, vdata) # rest) current_communities w =
     create_new u rest current_communities
       (if map_of current_communities vname = None
        then reg_set_value u w HKEY COMMUNITIES_KEY vname vdata REG_DWORD
        else w)"

text \<open>
  The two verification loops; \<^verbatim>\<open>new_communities[vname]\<close> raises \<^verbatim>\<open>KeyError\<close> for
  a requested community that is not there. Each returns the keys it adds to
  \<^verbatim>\<open>failed_communities\<close>.
\<close>

fun failed_new :: "pydict \<Rightarrow> pydict \<Rightarrow> pyval list" where
  "failed_new [] communities = []"
| "failed_new ((new_vname, p) # rest) communities =
     (if map_of communities new_vname = None then [new_vname] else [])
     @ failed_new rest communities"

fun failed_requested :: "pydict \<Rightarrow> pydict \<Rightarrow> error + pyval list" where
  "failed_requested [] new_communities = Inr []"
| "failed_requested ((vname, p) # rest) new_communities =
     (case map_of new_communities vname of
        None \<Rightarrow> Inl KeyError
      | Some p' \<Rightarrow>
         (case failed_requested rest new_communities of
            Inl e \<Rightarrow> Inl e
          | Inr failed \<Rightarrow> Inr ((if p \<noteq> p' then [vname] else []) @ failed)))"

text \<open>
  \<^verbatim>\<open>set_community_names(communities)\<close>. The requested dictionary has its keys once
  each, as a Python dictionary does. The loops over the current and the new
  dictionary go through their items in order.
\<close>

definition set_community_names ::
  "'s utils \<Rightarrow> 's world \<Rightarrow> pydict \<Rightarrow> 's world \<times> (error + bool)" where
  "set_community_names u w communities_arg =
     (let (w1, gpo) = reg_key_exists u w HKEY COMMUNITIES_GPO_KEY
      in if gpo
         then (w1, Inl (CommandExecutionError
                 ''Communities on this system are managed by Group Policy''))
         else
           (let (w2, current_communities) = get_community_names u w1
            in if dict_eq communities_arg current_communities then (w2, Inr True)
               else
                 (case values_loop (map fst communities_arg) communities_arg [] of
                    Inl e \<Rightarrow> (w2, Inl e)
                  | Inr (communities, vals) \<Rightarrow>
                     (let w3 = check_current u current_communities vals w2;
                          w4 = create_new u vals current_communities w3;
                          (w5, new_communities) = get_community_names u w4
                      in case failed_requested communities new_communities of
                           Inl e \<Rightarrow> (w5, Inl e)
                         | Inr failed \<Rightarrow>
                             (w5, Inr (failed_new new_communities communities @ failed = []))))))"

section \<open>A registry in memory\<close>

text \<open>
  The store behind \<^verbatim>\<open>__utils__\<close> (\<^verbatim>\<open>salt.utils.win_reg\<close>) is not part of the module;
  the theorems below hold for any. For the concrete runs, and where a claim is about
  what the store holds after a call, there is this one: for each hive and key that
  exists, the values under it, in the order they were created.
\<close>

type_synonym mem_reg = "((string \<times> string) \<times> pydict) list"

text \<open>
  Modelled from the spec: the values under a key of the store (\<^verbatim>\<open>listValues\<close>, an
  ordered sequence of entries with name and data); none under a key that does not
  exist.
\<close>

definition mem_values :: "mem_reg \<Rightarrow> string \<Rightarrow> string \<Rightarrow> pydict" where
  "mem_values s hive key = (case map_of s (hive, key) of None \<Rightarrow> [] | Some vs \<Rightarrow> vs)"

text \<open>
  Modelled from the spec: the \<^verbatim>\<open>ConfigStore\<close> capability, which is
  \<^verbatim>\<open>salt.utils.win_reg\<close> behind \<^verbatim>\<open>__utils__\<close> and is missing from the sources. The
  spec asks of it \<^verbatim>\<open>keyExists\<close>, \<^verbatim>\<open>readValue\<close> "where absence is signaled by a
  defined sentinel rather than an error", \<^verbatim>\<open>writeValue\<close>, \<^verbatim>\<open>listValues\<close> as an
  "ordered sequence of {name, data} entries" and \<^verbatim>\<open>deleteValue\<close>. The sentinel is the
  string the module tests for; a write creates the key when it is not there; the type
  tag of a write is not kept.
\<close>

definition mem_utils :: "mem_reg utils" where
  "mem_utils =
     \<lparr>key_exists = (\<lambda>s hive key. map_of s (hive, key) \<noteq> None),
      read_value = (\<lambda>s hive key vname.
         case map_of (mem_values s hive key) vname of
           None \<Rightarrow> PyStr ''(value not set)''
         | Some vdata \<Rightarrow> vdata),
      list_values = (\<lambda>s hive key. Values (map (\<lambda>(vname, vdata). Entry vname vdata)
                                              (mem_values s hive key))),
      set_value = (\<lambda>s hive key vname vdata ty.
         AList.update (hive, key) (AList.update vname vdata (mem_values s hive key)) s),
      delete_value = (\<lambda>s hive key vname.
         if map_of s (hive, key) = None then s
         else AList.update (hive, key) (AList.delete vname (mem_values s hive key)) s)\<rparr>"

definition start :: "mem_reg \<Rightarrow> mem_reg world" where
  "start s = \<lparr>reg = s, calls = []\<rparr>"

text \<open>
  A registry of the store above for the concrete runs: contact, location and the
  services bitmask \<open>1\<close> under the agent key, no communities, no authentication-trap
  value and no Group Policy key.
\<close>

definition reg_physical :: mem_reg where
  "reg_physical =
     [((HKEY, SNMP_KEY), []),
      ((HKEY, AGENT_KEY),
         [(PyStr ''sysContact'', PyStr ''admin''), (PyStr ''sysLocation'', PyStr ''lab''),
          (PyStr ''sysServices'', PyInt 1)]),
      ((HKEY, COMMUNITIES_KEY), [])]"

text \<open>
  Three more registries for the concrete runs. In the first the community
  \<^verbatim>\<open>a\<close> is stored with the permission \<open>4\<close> (Read Only) and there is no Group Policy
  key. In the second the Group Policy key lists two communities beside the local
  one. In the third the Group Policy key exists and has no values.
\<close>

definition reg_local :: mem_reg where
  "reg_local =
     [((HKEY, SNMP_KEY), []),
      ((HKEY, COMMUNITIES_KEY), [(PyStr ''a'', PyInt 4)])]"

definition reg_gpo :: mem_reg where
  "reg_gpo =
     [((HKEY, SNMP_KEY), []),
      ((HKEY, COMMUNITIES_KEY), [(PyStr ''a'', PyInt 4)]),
      ((HKEY, COMMUNITIES_GPO_KEY),
         [(PyStr ''1'', PyStr ''corp''), (PyStr ''2'', PyStr ''lab'')])]"

definition reg_gpo_empty :: mem_reg where
  "reg_gpo_empty =
     [((HKEY, SNMP_KEY), []),
      ((HKEY, COMMUNITIES_KEY), [(PyStr ''a'', PyInt 4)]),
      ((HKEY, COMMUNITIES_GPO_KEY), [])]"

section \<open>Notions of the specification\<close>

text \<open>The calls a run makes: the part of the final log after the initial one.\<close>

definition issued :: "'s world \<Rightarrow> 's world \<Rightarrow> reg_call list" where
  "issued w w' = drop (length (calls w)) (calls w')"

text \<open>The well-formed entries of an enumeration, as pairs of name and data, in order.\<close>

fun entries_of :: "entry list \<Rightarrow> (pyval \<times> pyval) list" where
  "entries_of [] = []"
| "entries_of (Not_a_dict # rest) = entries_of rest"
| "entries_of (Entry vname vdata # rest) = (vname, vdata) # entries_of rest"

text \<open>
  The reverse lookup of a stored permission as the specification puts it: the first
  member of the permission types, in declared order, whose value equals the stored
  integer, or the empty string.
\<close>

definition first_permission :: "pyval \<Rightarrow> string" where
  "first_permission vdata =
     (case find (\<lambda>(name, val). vdata = PyInt val) PERMISSION_TYPES of
        Some (name, val) \<Rightarrow> name
      | None \<Rightarrow> [])"

text \<open>A requested permission after normalization: a falsy one is \<^verbatim>\<open>"None"\<close>.\<close>

definition normalized :: "pyval \<Rightarrow> pyval" where
  "normalized p = (if truthy p then p else PyStr ''None'')"

unbundle bit_operations_syntax

text \<open>
  The bitmask of a selection of service names as the specification puts it: the
  bitwise OR of the members' bit values.
\<close>

definition or_combine :: "string list \<Rightarrow> int" where
  "or_combine names =
     fold (\<lambda>name acc. acc OR (case map_of SERVICE_TYPES name of Some b \<Rightarrow> b | None \<Rightarrow> 0))
       names 0"

text \<open>The same bitmask read off a set of names, one summand for each non-zero bit.\<close>

definition bits_of :: "string set \<Rightarrow> int" where
  "bits_of S =
     (if ''Physical'' \<in> S then 1 else 0) + (if ''Datalink and subnetwork'' \<in> S then 2 else 0)
     + (if ''Internet'' \<in> S then 4 else 0) + (if ''End-to-end'' \<in> S then 8 else 0)
     + (if ''Applications'' \<in> S then 64 else 0)"

section \<open>Evaluation of the registry in memory\<close>

lemmas mem_defs = mem_utils_def mem_values_def start_def HKEY_def SNMP_KEY_def AGENT_KEY_def
  COMMUNITIES_KEY_def SNMP_GPO_KEY_def COMMUNITIES_GPO_KEY_def

section \<open>Decomposition of the services bitmask\<close>

lemma sorted_types_eq:
  "sorted_types = [(''Applications'', 64), (''End-to-end'', 8), (''Internet'', 4),
     (''Datalink and subnetwork'', 2), (''Physical'', 1), (''None'', 0)]"
  by (simp add: sorted_types_def SERVICE_TYPES_def)

lemma service_names:
  "n \<in> set get_agent_service_types \<longleftrightarrow>
     n = ''None'' \<or> n = ''Physical'' \<or> n = ''Datalink and subnetwork'' \<or> n = ''Internet''
     \<or> n = ''End-to-end'' \<or> n = ''Applications''"
  by (simp add: get_agent_service_types_def SERVICE_TYPES_def)

lemma bits_of_insert:
  assumes "n \<in> set get_agent_service_types"
  shows "bits_of S OR (case map_of SERVICE_TYPES n of Some b \<Rightarrow> b | None \<Rightarrow> 0) = bits_of (insert n S)"
  using assms unfolding service_names
  by (elim disjE) (simp_all add: bits_of_def SERVICE_TYPES_def)

lemma fold_or_bits_of:
  "set names \<subseteq> set get_agent_service_types \<Longrightarrow>
   fold (\<lambda>name acc. acc OR (case map_of SERVICE_TYPES name of Some b \<Rightarrow> b | None \<Rightarrow> 0)) names (bits_of S)
     = bits_of (S \<union> set names)"
proof (induction names arbitrary: S)
  case Nil
  then show ?case by simp
next
  case (Cons n names)
  then show ?case by (simp add: bits_of_insert)
qed

lemma or_combine_bits_of:
  "set names \<subseteq> set get_agent_service_types \<Longrightarrow> or_combine names = bits_of (set names)"
  using fold_or_bits_of [of names "{}"] by (simp add: or_combine_def bits_of_def)

lemma services_loop_bits_of:
  "bits_of S \<noteq> 0 \<Longrightarrow>
   services_loop sorted_types (PyInt (bits_of S)) [] =
     Inr (filter (\<lambda>n. n \<in> S)
       [''Applications'', ''End-to-end'', ''Internet'', ''Datalink and subnetwork'', ''Physical''])"
  by (simp add: sorted_types_eq bits_of_def)


lemma get_agent_settings_fst:
  "fst (get_agent_settings u w) =
     w\<lparr>calls := calls w @
        [Read_value HKEY AGENT_KEY (PyStr ''sysContact''),
         Read_value HKEY AGENT_KEY (PyStr ''sysLocation''),
         Read_value HKEY AGENT_KEY (PyStr ''sysServices'')]\<rparr>"
  by (simp add: get_agent_settings_def reg_read_value_def Let_def)

lemma get_agent_settings_snd:
  "snd (get_agent_settings u w) =
     (case (if read_value u (reg w) HKEY AGENT_KEY (PyStr ''sysServices'') = PyInt 0
            then Inr [''None'']
            else services_loop sorted_types
                   (read_value u (reg w) HKEY AGENT_KEY (PyStr ''sysServices'')) []) of
        Inl e \<Rightarrow> Inl e
      | Inr svcs \<Rightarrow>
          Inr \<lparr>ret_contact = read_value u (reg w) HKEY AGENT_KEY (PyStr ''sysContact''),
               ret_location = read_value u (reg w) HKEY AGENT_KEY (PyStr ''sysLocation''),
               ret_services = sort svcs\<rparr>)"
proof -
  have "fst (last sorted_types) = ''None''" by (simp add: sorted_types_eq)
  then show ?thesis
    by (simp add: get_agent_settings_def reg_read_value_def Let_def split: sum.splits)
qed

lemma bits_of_zero:
  "set names \<subseteq> set get_agent_service_types \<Longrightarrow>
   bits_of (set names) = 0 \<longleftrightarrow> set names \<subseteq> {''None''}"
  unfolding bits_of_def subset_iff service_names
  by (auto split: if_splits)

lemma found_services_sorted:
  assumes "set names \<subseteq> set get_agent_service_types"
  shows "sort (filter (\<lambda>n. n \<in> set names)
           [''Applications'', ''End-to-end'', ''Internet'', ''Datalink and subnetwork'',
            ''Physical''])
         = sorted_list_of_set (set names - {''None''})"
proof -
  define nz where "nz = [''Applications'', ''End-to-end'', ''Internet'',
    ''Datalink and subnetwork'', ''Physical'']"
  have d: "distinct nz" by (simp add: nz_def)
  have m: "set get_agent_service_types = insert ''None'' (set nz)"
    by (simp add: nz_def get_agent_service_types_def SERVICE_TYPES_def insert_commute)
  have n: "''None'' \<notin> set nz" by (simp add: nz_def)
  have "set (filter (\<lambda>n. n \<in> set names) nz) = set names - {''None''}"
    using assms m n by auto
  then have "sorted_list_of_set (set names - {''None''})
      = sorted_list_of_set (set (filter (\<lambda>n. n \<in> set names) nz))"
    by simp
  also have "\<dots> = sort (remdups (filter (\<lambda>n. n \<in> set names) nz))"
    by (rule sorted_list_of_set_sort_remdups)
  also have "\<dots> = sort (filter (\<lambda>n. n \<in> set names) nz)"
    using d by (simp only: distinct_remdups_id distinct_filter)
  finally show ?thesis unfolding nz_def by simp
qed

text \<open>
  Claim C1, as amended. Let the stored \<^verbatim>\<open>sysServices\<close> be the bitwise OR of the bit
  values of a selection of service type names. When the selection has a member other
  than \<^verbatim>\<open>"None"\<close>, \<^verbatim>\<open>get_agent_settings\<close> returns exactly the members other than
  \<^verbatim>\<open>"None"\<close>, sorted by name; when it has none (it is empty or just \<^verbatim>\<open>"None"\<close>), the
  result is the one-element list \<^verbatim>\<open>["None"]\<close>. A stored bitmask of exactly \<open>0\<close> yields
  \<^verbatim>\<open>["None"]\<close>, not the empty list. Contact and location are passed through as read.
\<close>

theorem get_agent_settings_decomposition:
  fixes u :: "'s utils" and w :: "'s world"
  defines "bitmask \<equiv> read_value u (reg w) HKEY AGENT_KEY (PyStr ''sysServices'')"
  defines "settings \<equiv> (\<lambda>svcs.
     Inr \<lparr>ret_contact = read_value u (reg w) HKEY AGENT_KEY (PyStr ''sysContact''),
          ret_location = read_value u (reg w) HKEY AGENT_KEY (PyStr ''sysLocation''),
          ret_services = svcs\<rparr>)"
  shows "(\<forall>names. set names \<subseteq> set get_agent_service_types
            \<and> bitmask = PyInt (or_combine names) \<longrightarrow>
            snd (get_agent_settings u w) =
              settings (if set names \<subseteq> {''None''} then [''None'']
                        else sorted_list_of_set (set names - {''None''})))
       \<and> (bitmask = PyInt 0 \<longrightarrow> snd (get_agent_settings u w) = settings [''None''])"
proof (intro conjI allI impI)
  fix names
  assume a: "set names \<subseteq> set get_agent_service_types \<and> bitmask = PyInt (or_combine names)"
  then have bm: "bitmask = PyInt (bits_of (set names))"
    by (simp add: or_combine_bits_of)
  show "snd (get_agent_settings u w) =
          settings (if set names \<subseteq> {''None''} then [''None'']
                    else sorted_list_of_set (set names - {''None''}))"
  proof (cases "bits_of (set names) = 0")
    case True
    then have "set names \<subseteq> {''None''}" using a by (simp add: bits_of_zero)
    then show ?thesis
      using True bm unfolding bitmask_def settings_def
      by (simp add: get_agent_settings_snd)
  next
    case False
    then have "\<not> set names \<subseteq> {''None''}" using a by (simp add: bits_of_zero)
    moreover have "services_loop sorted_types (PyInt (bits_of (set names))) [] =
       Inr (filter (\<lambda>n. n \<in> set names)
         [''Applications'', ''End-to-end'', ''Internet'', ''Datalink and subnetwork'',
          ''Physical''])"
      using False by (rule services_loop_bits_of)
    moreover have "sort (filter (\<lambda>n. n \<in> set names)
           [''Applications'', ''End-to-end'', ''Internet'', ''Datalink and subnetwork'',
            ''Physical''])
         = sorted_list_of_set (set names - {''None''})"
      using a by (simp only: found_services_sorted)
    ultimately show ?thesis
      using False bm unfolding bitmask_def settings_def
      by (simp only: get_agent_settings_snd pyval.inject if_False sum.case)
  qed
next
  assume "bitmask = PyInt 0"
  then show "snd (get_agent_settings u w) = settings [''None'']"
    unfolding bitmask_def settings_def by (simp add: get_agent_settings_snd)
qed


text \<open>
  Claim C1 as stated fails for a selection that has \<^verbatim>\<open>"None"\<close> beside another member:
  the bit value of \<^verbatim>\<open>"None"\<close> is \<open>0\<close>, so \<^verbatim>\<open>{"None", "Physical"}\<close> is stored as \<open>1\<close> and
  read back as \<^verbatim>\<open>["Physical"]\<close>, which is not that selection sorted by name.
\<close>

theorem decomposition_counterexample:
  "set [''None'', ''Physical''] \<subseteq> set get_agent_service_types
   \<and> read_value mem_utils (reg (start reg_physical)) HKEY AGENT_KEY (PyStr ''sysServices'')
       = PyInt (or_combine [''None'', ''Physical''])
   \<and> snd (get_agent_settings mem_utils (start reg_physical))
       = Inr \<lparr>ret_contact = PyStr ''admin'', ret_location = PyStr ''lab'',
              ret_services = [''Physical'']\<rparr>
   \<and> [''Physical''] \<noteq> sorted_list_of_set (set [''None'', ''Physical''])"
  by (simp add: get_agent_settings_snd sorted_types_eq or_combine_def SERVICE_TYPES_def
        get_agent_service_types_def reg_physical_def mem_defs sorted_list_of_set_sort_remdups)

text \<open>
  The amended claim at the bitmask \<open>5\<close> of Internet and Physical (named twice), and at
  the bitmask \<open>0\<close>.
\<close>

theorem get_agent_settings_decomposition_witness:
  "set [''Internet'', ''Physical'', ''Internet''] \<subseteq> set get_agent_service_types
   \<and> read_value mem_utils (reg (start (set_value mem_utils reg_physical HKEY AGENT_KEY
         (PyStr ''sysServices'') (PyInt 5) REG_DWORD))) HKEY AGENT_KEY (PyStr ''sysServices'')
       = PyInt (or_combine [''Internet'', ''Physical'', ''Internet''])
   \<and> snd (get_agent_settings mem_utils (start (set_value mem_utils reg_physical HKEY AGENT_KEY
         (PyStr ''sysServices'') (PyInt 5) REG_DWORD)))
       = Inr \<lparr>ret_contact = PyStr ''admin'', ret_location = PyStr ''lab'',
              ret_services = [''Internet'', ''Physical'']\<rparr>
   \<and> read_value mem_utils (reg (start (set_value mem_utils reg_physical HKEY AGENT_KEY
         (PyStr ''sysServices'') (PyInt 0) REG_DWORD))) HKEY AGENT_KEY (PyStr ''sysServices'')
       = PyInt 0
   \<and> snd (get_agent_settings mem_utils (start (set_value mem_utils reg_physical HKEY AGENT_KEY
         (PyStr ''sysServices'') (PyInt 0) REG_DWORD)))
       = Inr \<lparr>ret_contact = PyStr ''admin'', ret_location = PyStr ''lab'',
              ret_services = [''None'']\<rparr>"
proof -
  let ?w5 = "start (set_value mem_utils reg_physical HKEY AGENT_KEY
         (PyStr ''sysServices'') (PyInt 5) REG_DWORD)"
  let ?w0 = "start (set_value mem_utils reg_physical HKEY AGENT_KEY
         (PyStr ''sysServices'') (PyInt 0) REG_DWORD)"
  have s: "set [''Internet'', ''Physical'', ''Internet''] \<subseteq> set get_agent_service_types"
    by (simp add: get_agent_service_types_def SERVICE_TYPES_def)
  have r5: "read_value mem_utils (reg ?w5) HKEY AGENT_KEY (PyStr ''sysServices'')
       = PyInt (or_combine [''Internet'', ''Physical'', ''Internet''])"
    by (simp add: or_combine_def SERVICE_TYPES_def reg_physical_def mem_defs)
  have r0: "read_value mem_utils (reg ?w0) HKEY AGENT_KEY (PyStr ''sysServices'') = PyInt 0"
    by (simp add: reg_physical_def mem_defs)
  have c: "read_value mem_utils (reg ?w5) HKEY AGENT_KEY (PyStr ''sysContact'') = PyStr ''admin''"
     "read_value mem_utils (reg ?w5) HKEY AGENT_KEY (PyStr ''sysLocation'') = PyStr ''lab''"
     "read_value mem_utils (reg ?w0) HKEY AGENT_KEY (PyStr ''sysContact'') = PyStr ''admin''"
     "read_value mem_utils (reg ?w0) HKEY AGENT_KEY (PyStr ''sysLocation'') = PyStr ''lab''"
    by (simp_all add: reg_physical_def mem_defs)
  have l: "sorted_list_of_set (set [''Internet'', ''Physical'', ''Internet''] - {''None''})
      = [''Internet'', ''Physical'']"
    by (simp add: sorted_list_of_set_sort_remdups insert_Diff_if)
  have n: "\<not> set [''Internet'', ''Physical'', ''Internet''] \<subseteq> {''None''}" by simp
  from get_agent_settings_decomposition [of mem_utils ?w5] s r5
  have "snd (get_agent_settings mem_utils ?w5) =
     Inr \<lparr>ret_contact = PyStr ''admin'', ret_location = PyStr ''lab'',
          ret_services = [''Internet'', ''Physical'']\<rparr>"
    using c l n by (simp del: set_simps)
  moreover from get_agent_settings_decomposition [of mem_utils ?w0] r0
  have "snd (get_agent_settings mem_utils ?w0) =
     Inr \<lparr>ret_contact = PyStr ''admin'', ret_location = PyStr ''lab'',
          ret_services = [''None'']\<rparr>"
    using c by simp
  ultimately show ?thesis using s r5 r0 by (simp only: simp_thms)
qed

section \<open>Writing the agent settings\<close>

lemma get_agent_settings_reg: "reg (fst (get_agent_settings u w)) = reg w"
  by (simp add: get_agent_settings_fst)

lemma get_agent_settings_writes: "writes (calls (fst (get_agent_settings u w))) = writes (calls w)"
  by (simp add: get_agent_settings_fst writes_def)

lemma get_agent_settings_cong:
  "reg w' = reg w \<Longrightarrow> snd (get_agent_settings u w') = snd (get_agent_settings u w)"
  by (simp add: get_agent_settings_snd split: sum.splits)

lemma get_agent_settings_pair:
  "get_agent_settings u w = (fst (get_agent_settings u w), snd (get_agent_settings u w))"
  by simp

lemma map_of_SERVICE_TYPES_None:
  "map_of SERVICE_TYPES service = None \<longleftrightarrow> service \<notin> set get_agent_service_types"
  by (simp add: map_of_eq_None_iff get_agent_service_types_def)

lemma validate_services_ok:
  "set xs \<subseteq> set get_agent_service_types \<Longrightarrow> validate_services xs = Inr ()"
  by (induction xs) (simp_all add: map_of_SERVICE_TYPES_None)

lemma validate_services_bad:
  "\<not> set xs \<subseteq> set get_agent_service_types \<Longrightarrow>
   validate_services xs =
     Inl (SaltInvocationError
       (''Invalid service '' @ quoted (hd (filter (\<lambda>x. x \<notin> set get_agent_service_types) xs))
        @ '' specified. Valid services: '' @ py_repr_names get_agent_service_types))"
  by (induction xs) (simp_all add: map_of_SERVICE_TYPES_None)

lemma validate_services_cases:
  "validate_services xs = Inr () \<longleftrightarrow> set xs \<subseteq> set get_agent_service_types"
proof (cases "set xs \<subseteq> set get_agent_service_types")
  case True
  then show ?thesis by (simp add: validate_services_ok)
next
  case False
  then show ?thesis by (simp add: validate_services_bad)
qed

lemma bits_of_insert_new:
  assumes "n \<in> set get_agent_service_types" and "n \<notin> S"
  shows "map_of SERVICE_TYPES n = Some (bits_of (insert n S) - bits_of S)"
  using assms unfolding service_names
  by (elim disjE) (simp_all add: bits_of_def SERVICE_TYPES_def)

lemma sum_services_bits_of:
  "set xs \<subseteq> set get_agent_service_types \<Longrightarrow> distinct xs \<Longrightarrow>
   sum_services xs = Inr (bits_of (set xs))"
proof (induction xs)
  case Nil
  then show ?case by (simp add: bits_of_def)
next
  case (Cons x xs)
  then have "map_of SERVICE_TYPES x = Some (bits_of (insert x (set xs)) - bits_of (set xs))"
    by (simp add: bits_of_insert_new)
  with Cons show ?case by simp
qed

lemma sum_services_or_combine:
  "set xs \<subseteq> set get_agent_service_types \<Longrightarrow>
   sum_services (sort (remdups xs)) = Inr (or_combine xs)"
  using sum_services_bits_of [of "sort (remdups xs)"] by (simp add: or_combine_bits_of)


lemma failed_settings_empty:
  "((if a then [x] else []) @ (if b then [y] else []) @ zs = []) = (\<not> a \<and> \<not> b \<and> zs = [])"
  by simp

lemma failed_one_empty: "((if a then [x] else []) = []) = (\<not> a)"
  by simp

lemma set_agent_settings_unfold:
  fixes u :: "'s utils" and contact location :: pyval
  assumes v: "case services_arg of None \<Rightarrow> True
              | Some xs \<Rightarrow> set xs \<subseteq> set get_agent_service_types"
      and c: "snd (get_agent_settings u w) = Inr cur"
  defines "w1 \<equiv> fst (get_agent_settings u w)"
  defines "w2 \<equiv> (if contact \<noteq> PyNone \<and> contact \<noteq> ret_contact cur
                  then reg_set_value u w1 HKEY AGENT_KEY (PyStr ''sysContact'') contact REG_SZ
                  else w1)"
  defines "w3 \<equiv> (if location \<noteq> PyNone \<and> location \<noteq> ret_location cur
                  then reg_set_value u w2 HKEY AGENT_KEY (PyStr ''sysLocation'') location REG_SZ
                  else w2)"
  defines "w4 \<equiv> (case services_arg of
                    None \<Rightarrow> w3
                  | Some xs \<Rightarrow>
                      if set xs \<noteq> set (ret_services cur)
                      then reg_set_value u w3 HKEY AGENT_KEY (PyStr ''sysServices'')
                             (PyInt (or_combine xs)) REG_DWORD
                      else w3)"
  shows "set_agent_settings u w contact location services_arg =
     (if contact = ret_contact cur \<and> location = ret_location cur
         \<and> map_option (\<lambda>xs. sort (remdups xs)) services_arg = Some (ret_services cur)
      then (w1, Inr True)
      else (fst (get_agent_settings u w4),
            case snd (get_agent_settings u w4) of
              Inl e \<Rightarrow> Inl e
            | Inr new_settings \<Rightarrow>
                Inr ((contact = PyNone \<or> contact = ret_contact new_settings)
                   \<and> (location = PyNone \<or> location = ret_location new_settings)
                   \<and> (case services_arg of
                        None \<Rightarrow> True
                      | Some xs \<Rightarrow> sort (remdups xs) = ret_services new_settings))))"
proof -
  have g: "get_agent_settings u w = (w1, Inr cur)"
    using c by (simp add: w1_def prod_eq_iff)
  obtain w5 r5 where g4: "get_agent_settings u w4 = (w5, r5)"
    by (cases "get_agent_settings u w4")
  show ?thesis
  proof (cases services_arg)
    case None
    then have w4: "w4 = w3" by (simp add: w4_def)
    show ?thesis
      unfolding set_agent_settings_def g None
      apply (simp only: Let_def option.map option.case sum.case prod.case
          w2_def [symmetric] w3_def [symmetric])
      apply (simp only: w4 [symmetric] g4 prod.case fst_conv snd_conv)
      apply (cases r5)
       apply (simp_all add: failed_settings_empty failed_one_empty split del: if_split)
      done
  next
    case (Some xs)
    then have s: "set xs \<subseteq> set get_agent_service_types" using v by simp
    then have va: "validate_services (sort (remdups xs)) = Inr ()"
      by (simp add: validate_services_ok)
    have su: "sum_services (sort (remdups xs)) = Inr (or_combine xs)"
      using s by (rule sum_services_or_combine)
    have st: "set (sort (remdups xs)) = set xs" by simp
    have w4: "(if set xs \<noteq> set (ret_services cur)
               then reg_set_value u w3 HKEY AGENT_KEY (PyStr ''sysServices'')
                      (PyInt (or_combine xs)) REG_DWORD
               else w3) = w4"
      by (simp add: w4_def Some)
    show ?thesis
      unfolding set_agent_settings_def g Some
      apply (simp only: Let_def option.map option.case sum.case prod.case va su st
          w2_def [symmetric] w3_def [symmetric])
      apply (cases "set xs \<noteq> set (ret_services cur)")
       apply (simp_all only: if_True if_False sum.case w4 [symmetric] simp_thms)
       apply (auto simp add: failed_settings_empty failed_one_empty
          split: prod.splits sum.splits)
      done
  qed
qed


lemma writes_reg_set_value:
  "writes (calls (reg_set_value u w hive key vname vdata ty)) =
     writes (calls w) @ [Set_value hive key vname vdata ty]"
  by (simp add: reg_set_value_def writes_def)

lemma set_agent_settings_invalid:
  assumes "\<not> set xs \<subseteq> set get_agent_service_types"
  shows "set_agent_settings u w contact location (Some xs) =
     (w, Inl (SaltInvocationError
       (''Invalid service ''
        @ quoted (hd (filter (\<lambda>x. x \<notin> set get_agent_service_types) (sort (remdups xs))))
        @ '' specified. Valid services: '' @ py_repr_names get_agent_service_types)))"
proof -
  have "\<not> set (sort (remdups xs)) \<subseteq> set get_agent_service_types" using assms by simp
  then have "validate_services (sort (remdups xs)) =
     Inl (SaltInvocationError
       (''Invalid service ''
        @ quoted (hd (filter (\<lambda>x. x \<notin> set get_agent_service_types) (sort (remdups xs))))
        @ '' specified. Valid services: '' @ py_repr_names get_agent_service_types))"
    by (rule validate_services_bad)
  then show ?thesis
    unfolding set_agent_settings_def
    by (simp only: Let_def option.map option.case sum.case)
qed

lemma set_agent_settings_read_error:
  assumes v: "case services_arg of None \<Rightarrow> True
              | Some xs \<Rightarrow> set xs \<subseteq> set get_agent_service_types"
      and c: "snd (get_agent_settings u w) = Inl e"
  shows "set_agent_settings u w contact location services_arg =
           (fst (get_agent_settings u w), Inl e)"
proof -
  have g: "get_agent_settings u w = (fst (get_agent_settings u w), Inl e)"
    using c by (simp add: prod_eq_iff)
  have "(case map_option (\<lambda>xs. sort (remdups xs)) services_arg of
           None \<Rightarrow> Inr () | Some svcs \<Rightarrow> validate_services svcs) = Inr ()"
    using v by (cases services_arg) (simp_all add: validate_services_ok)
  then show ?thesis
    unfolding set_agent_settings_def Let_def
    by (subst g) (simp only: sum.case prod.case)
qed

lemma set_agent_settings_Inr_D:
  assumes "snd (set_agent_settings u w contact location services_arg) = Inr b"
  shows "(case services_arg of None \<Rightarrow> True
          | Some xs \<Rightarrow> set xs \<subseteq> set get_agent_service_types)
         \<and> (\<exists>cur. snd (get_agent_settings u w) = Inr cur)"
proof -
  have v: "case services_arg of None \<Rightarrow> True
          | Some xs \<Rightarrow> set xs \<subseteq> set get_agent_service_types"
  proof (cases services_arg)
    case None
    then show ?thesis by simp
  next
    case (Some xs)
    show ?thesis
    proof (rule ccontr)
      assume "\<not> ?thesis"
      then have "\<not> set xs \<subseteq> set get_agent_service_types" using Some by simp
      from set_agent_settings_invalid [OF this, of u w contact location] assms Some
      show False by simp
    qed
  qed
  have "\<exists>cur. snd (get_agent_settings u w) = Inr cur"
  proof (cases "snd (get_agent_settings u w)")
    case (Inl e)
    from set_agent_settings_read_error [OF v Inl, of contact location] assms
    show ?thesis by simp
  next
    case (Inr cur)
    then show ?thesis by simp
  qed
  with v show ?thesis by simp
qed


text \<open>
  Claim C7. Let the services, when given, be service type names, and let the current
  settings be read. Then the writes that \<^verbatim>\<open>set_agent_settings\<close> issues are exactly
  these, in this order: \<^verbatim>\<open>sysContact\<close> with the contact as given, of type \<^verbatim>\<open>REG_SZ\<close>,
  when the contact is given and differs from the current one; \<^verbatim>\<open>sysLocation\<close>
  likewise; and \<^verbatim>\<open>sysServices\<close>, of type \<^verbatim>\<open>REG_DWORD\<close>, when the services are given and
  differ as a set from the current ones. An argument left at \<^verbatim>\<open>None\<close> gets no write.
  The integer written for the services is the sum the code computes over the sorted
  distinct names, which is the bitwise OR of the members' bit values, and \<open>0\<close> for the
  empty selection.
\<close>

theorem set_agent_settings_writes:
  fixes u :: "'s utils" and contact location :: pyval
  assumes v: "case services_arg of None \<Rightarrow> True
              | Some xs \<Rightarrow> set xs \<subseteq> set get_agent_service_types"
      and c: "snd (get_agent_settings u w) = Inr cur"
  shows "writes (calls (fst (set_agent_settings u w contact location services_arg))) =
           writes (calls w)
           @ (if contact \<noteq> PyNone \<and> contact \<noteq> ret_contact cur
              then [Set_value HKEY AGENT_KEY (PyStr ''sysContact'') contact REG_SZ] else [])
           @ (if location \<noteq> PyNone \<and> location \<noteq> ret_location cur
              then [Set_value HKEY AGENT_KEY (PyStr ''sysLocation'') location REG_SZ] else [])
           @ (case services_arg of
                None \<Rightarrow> []
              | Some xs \<Rightarrow>
                  if set xs \<noteq> set (ret_services cur)
                  then [Set_value HKEY AGENT_KEY (PyStr ''sysServices'')
                          (PyInt (or_combine xs)) REG_DWORD]
                  else [])
         \<and> (case services_arg of
               None \<Rightarrow> True
             | Some xs \<Rightarrow> sum_services (sort (remdups xs)) = Inr (or_combine xs))
         \<and> or_combine [] = 0"
proof (intro conjI)
  define w1 where "w1 = fst (get_agent_settings u w)"
  define w2 where "w2 = (if contact \<noteq> PyNone \<and> contact \<noteq> ret_contact cur
                  then reg_set_value u w1 HKEY AGENT_KEY (PyStr ''sysContact'') contact REG_SZ
                  else w1)"
  define w3 where "w3 = (if location \<noteq> PyNone \<and> location \<noteq> ret_location cur
                  then reg_set_value u w2 HKEY AGENT_KEY (PyStr ''sysLocation'') location REG_SZ
                  else w2)"
  define w4 where "w4 = (case services_arg of
                    None \<Rightarrow> w3
                  | Some xs \<Rightarrow>
                      if set xs \<noteq> set (ret_services cur)
                      then reg_set_value u w3 HKEY AGENT_KEY (PyStr ''sysServices'')
                             (PyInt (or_combine xs)) REG_DWORD
                      else w3)"
  let ?W2 = "(if contact \<noteq> PyNone \<and> contact \<noteq> ret_contact cur
              then [Set_value HKEY AGENT_KEY (PyStr ''sysContact'') contact REG_SZ] else [])"
  let ?W3 = "(if location \<noteq> PyNone \<and> location \<noteq> ret_location cur
              then [Set_value HKEY AGENT_KEY (PyStr ''sysLocation'') location REG_SZ] else [])"
  let ?W4 = "(case services_arg of
                None \<Rightarrow> []
              | Some xs \<Rightarrow>
                  if set xs \<noteq> set (ret_services cur)
                  then [Set_value HKEY AGENT_KEY (PyStr ''sysServices'')
                          (PyInt (or_combine xs)) REG_DWORD]
                  else [])"
  have n: "set_agent_settings u w contact location services_arg =
     (if contact = ret_contact cur \<and> location = ret_location cur
         \<and> map_option (\<lambda>xs. sort (remdups xs)) services_arg = Some (ret_services cur)
      then (w1, Inr True)
      else (fst (get_agent_settings u w4),
            case snd (get_agent_settings u w4) of
              Inl e \<Rightarrow> Inl e
            | Inr new_settings \<Rightarrow>
                Inr ((contact = PyNone \<or> contact = ret_contact new_settings)
                   \<and> (location = PyNone \<or> location = ret_location new_settings)
                   \<and> (case services_arg of
                        None \<Rightarrow> True
                      | Some xs \<Rightarrow> sort (remdups xs) = ret_services new_settings))))"
    unfolding w1_def w2_def w3_def w4_def by (rule set_agent_settings_unfold [OF v c])
  have k1: "writes (calls w1) = writes (calls w)"
    by (simp add: w1_def get_agent_settings_writes)
  have k2: "writes (calls w2) = writes (calls w1) @ ?W2"
    by (simp add: w2_def writes_reg_set_value)
  have k3: "writes (calls w3) = writes (calls w2) @ ?W3"
    by (simp add: w3_def writes_reg_set_value)
  have k4: "writes (calls w4) = writes (calls w3) @ ?W4"
    by (cases services_arg) (simp_all add: w4_def writes_reg_set_value)
  have all: "writes (calls (fst (get_agent_settings u w4))) = writes (calls w) @ ?W2 @ ?W3 @ ?W4"
    by (simp only: get_agent_settings_writes k1 k2 k3 k4 append_assoc)
  show "writes (calls (fst (set_agent_settings u w contact location services_arg))) =
          writes (calls w) @ ?W2 @ ?W3 @ ?W4"
  proof (cases "contact = ret_contact cur \<and> location = ret_location cur
         \<and> map_option (\<lambda>xs. sort (remdups xs)) services_arg = Some (ret_services cur)")
    case True
    then obtain xs where xs: "services_arg = Some xs" "sort (remdups xs) = ret_services cur"
      by (cases services_arg) auto
    then have "set xs = set (ret_services cur)"
      by (metis set_remdups set_sort)
    then have "?W2 = [] \<and> ?W3 = [] \<and> ?W4 = []" using True xs by simp
    then have "writes (calls w) @ ?W2 @ ?W3 @ ?W4 = writes (calls w)" by simp
    moreover have "fst (set_agent_settings u w contact location services_arg) = w1"
      unfolding n by (simp only: if_P [OF True] fst_conv)
    ultimately show ?thesis using k1 by simp
  next
    case False
    then have "fst (set_agent_settings u w contact location services_arg)
        = fst (get_agent_settings u w4)"
      unfolding n by (simp only: if_False fst_conv)
    then show ?thesis using all by simp
  qed
next
  show "case services_arg of None \<Rightarrow> True
        | Some xs \<Rightarrow> sum_services (sort (remdups xs)) = Inr (or_combine xs)"
    using v by (cases services_arg) (simp_all add: sum_services_or_combine)
next
  show "or_combine [] = 0" by (simp add: or_combine_def)
qed

lemma mem_get_agent_settings_physical:
  "snd (get_agent_settings mem_utils (start reg_physical)) =
     Inr \<lparr>ret_contact = PyStr ''admin'', ret_location = PyStr ''lab'',
          ret_services = [''Physical'']\<rparr>"
  by (simp add: get_agent_settings_snd sorted_types_eq reg_physical_def mem_defs)

text \<open>
  Claim C7 on the registry in memory, whose current settings are contact \<^verbatim>\<open>admin\<close>,
  location \<^verbatim>\<open>lab\<close> and services \<^verbatim>\<open>["Physical"]\<close>: a new contact with Physical and
  Internet writes the contact and the bitmask \<open>5\<close>; the current location alone writes
  nothing; the empty selection writes the bitmask \<open>0\<close>.
\<close>

theorem set_agent_settings_writes_witness:
  "set [''Physical'', ''Internet'', ''Physical''] \<subseteq> set get_agent_service_types
   \<and> snd (get_agent_settings mem_utils (start reg_physical)) =
       Inr \<lparr>ret_contact = PyStr ''admin'', ret_location = PyStr ''lab'',
            ret_services = [''Physical'']\<rparr>
   \<and> writes (calls (fst (set_agent_settings mem_utils (start reg_physical)
         (PyStr ''root'') PyNone (Some [''Physical'', ''Internet'', ''Physical''])))) =
       [Set_value HKEY AGENT_KEY (PyStr ''sysContact'') (PyStr ''root'') REG_SZ,
        Set_value HKEY AGENT_KEY (PyStr ''sysServices'') (PyInt 5) REG_DWORD]
   \<and> writes (calls (fst (set_agent_settings mem_utils (start reg_physical)
         PyNone (PyStr ''lab'') None))) = []
   \<and> writes (calls (fst (set_agent_settings mem_utils (start reg_physical)
         PyNone PyNone (Some [])))) =
       [Set_value HKEY AGENT_KEY (PyStr ''sysServices'') (PyInt 0) REG_DWORD]"
proof -
  let ?cur = "\<lparr>ret_contact = PyStr ''admin'', ret_location = PyStr ''lab'',
            ret_services = [''Physical'']\<rparr>"
  have s: "set [''Physical'', ''Internet'', ''Physical''] \<subseteq> set get_agent_service_types"
    by (simp add: get_agent_service_types_def SERVICE_TYPES_def)
  have o: "or_combine [''Physical'', ''Internet'', ''Physical''] = 5"
    by (simp add: or_combine_def SERVICE_TYPES_def)
  have e: "writes (calls (start reg_physical)) = []"
    by (simp add: start_def writes_def)
  have a: "writes (calls (fst (set_agent_settings mem_utils (start reg_physical)
         (PyStr ''root'') PyNone (Some [''Physical'', ''Internet'', ''Physical''])))) =
       [Set_value HKEY AGENT_KEY (PyStr ''sysContact'') (PyStr ''root'') REG_SZ,
        Set_value HKEY AGENT_KEY (PyStr ''sysServices'') (PyInt 5) REG_DWORD]"
    using set_agent_settings_writes [of "Some [''Physical'', ''Internet'', ''Physical'']"
        mem_utils "start reg_physical" ?cur "PyStr ''root''" PyNone]
      s mem_get_agent_settings_physical o e
    by simp
  have b: "writes (calls (fst (set_agent_settings mem_utils (start reg_physical)
         PyNone (PyStr ''lab'') None))) = []"
    using set_agent_settings_writes [of None mem_utils "start reg_physical" ?cur
        PyNone "PyStr ''lab''"] mem_get_agent_settings_physical e
    by simp
  have c: "writes (calls (fst (set_agent_settings mem_utils (start reg_physical)
         PyNone PyNone (Some [])))) =
       [Set_value HKEY AGENT_KEY (PyStr ''sysServices'') (PyInt 0) REG_DWORD]"
    using set_agent_settings_writes [of "Some []" mem_utils "start reg_physical" ?cur
        PyNone PyNone] mem_get_agent_settings_physical e
    by (simp add: or_combine_def)
  show ?thesis using s mem_get_agent_settings_physical a b c by (simp only: simp_thms)
qed


lemma reg_get_agent_settings_world:
  "reg w' = reg w \<Longrightarrow> snd (get_agent_settings u w) = Inr ns \<Longrightarrow>
   snd (get_agent_settings u w') = Inr ns"
  using get_agent_settings_cong [of w' w u] by simp

lemma set_agent_settings_settled:
  fixes u :: "'s utils" and contact location :: pyval
  assumes v: "case services_arg of None \<Rightarrow> True
              | Some xs \<Rightarrow> set xs \<subseteq> set get_agent_service_types"
      and c: "snd (get_agent_settings u w) = Inr ns"
      and sc: "contact = PyNone \<or> contact = ret_contact ns"
      and sl: "location = PyNone \<or> location = ret_location ns"
      and ss: "case services_arg of None \<Rightarrow> True
               | Some xs \<Rightarrow> sort (remdups xs) = ret_services ns"
  shows "\<exists>w'. set_agent_settings u w contact location services_arg = (w', Inr True)
           \<and> reg w' = reg w \<and> writes (calls w') = writes (calls w)"
proof -
  define w1 where "w1 = fst (get_agent_settings u w)"
  have r1: "reg w1 = reg w" "writes (calls w1) = writes (calls w)"
    by (simp_all add: w1_def get_agent_settings_reg get_agent_settings_writes)
  have q: "case services_arg of None \<Rightarrow> True | Some xs \<Rightarrow> set xs = set (ret_services ns)"
  proof (cases services_arg)
    case None
    then show ?thesis by simp
  next
    case (Some xs)
    then have "sort (remdups xs) = ret_services ns" using ss by simp
    then have "set xs = set (ret_services ns)" by (metis set_remdups set_sort)
    then show ?thesis using Some by simp
  qed
  have w2: "(if contact \<noteq> PyNone \<and> contact \<noteq> ret_contact ns
             then reg_set_value u w1 HKEY AGENT_KEY (PyStr ''sysContact'') contact REG_SZ
             else w1) = w1"
    using sc by auto
  have w3: "(if location \<noteq> PyNone \<and> location \<noteq> ret_location ns
             then reg_set_value u w1 HKEY AGENT_KEY (PyStr ''sysLocation'') location REG_SZ
             else w1) = w1"
    using sl by auto
  have w4: "(case services_arg of
               None \<Rightarrow> w1
             | Some xs \<Rightarrow>
                 if set xs \<noteq> set (ret_services ns)
                 then reg_set_value u w1 HKEY AGENT_KEY (PyStr ''sysServices'')
                        (PyInt (or_combine xs)) REG_DWORD
                 else w1) = w1"
    using q by (cases services_arg) simp_all
  have n: "set_agent_settings u w contact location services_arg =
     (if contact = ret_contact ns \<and> location = ret_location ns
         \<and> map_option (\<lambda>xs. sort (remdups xs)) services_arg = Some (ret_services ns)
      then (w1, Inr True)
      else (fst (get_agent_settings u w1),
            case snd (get_agent_settings u w1) of
              Inl e \<Rightarrow> Inl e
            | Inr new_settings \<Rightarrow>
                Inr ((contact = PyNone \<or> contact = ret_contact new_settings)
                   \<and> (location = PyNone \<or> location = ret_location new_settings)
                   \<and> (case services_arg of
                        None \<Rightarrow> True
                      | Some xs \<Rightarrow> sort (remdups xs) = ret_services new_settings))))"
    using set_agent_settings_unfold [OF v c, of contact location]
    unfolding w1_def [symmetric] w2 w3 w4 .
  have c1: "snd (get_agent_settings u w1) = Inr ns"
    using r1(1) c by (rule reg_get_agent_settings_world)
  have ok: "(contact = PyNone \<or> contact = ret_contact ns)
                   \<and> (location = PyNone \<or> location = ret_location ns)
                   \<and> (case services_arg of
                        None \<Rightarrow> True
                      | Some xs \<Rightarrow> sort (remdups xs) = ret_services ns)"
    using sc sl ss by simp
  show ?thesis
  proof (cases "contact = ret_contact ns \<and> location = ret_location ns
         \<and> map_option (\<lambda>xs. sort (remdups xs)) services_arg = Some (ret_services ns)")
    case True
    then have "set_agent_settings u w contact location services_arg = (w1, Inr True)"
      unfolding n by simp
    then show ?thesis using r1 by simp
  next
    case False
    then have "set_agent_settings u w contact location services_arg
        = (fst (get_agent_settings u w1), Inr True)"
      unfolding n c1 using ok by (simp only: if_False sum.case simp_thms)
    moreover have "reg (fst (get_agent_settings u w1)) = reg w"
      by (simp add: get_agent_settings_reg r1)
    moreover have "writes (calls (fst (get_agent_settings u w1))) = writes (calls w)"
      by (simp add: get_agent_settings_writes r1)
    ultimately show ?thesis by simp
  qed
qed

lemma set_agent_settings_unfold_ex:
  fixes u :: "'s utils" and contact location :: pyval
  assumes v: "case services_arg of None \<Rightarrow> True
              | Some xs \<Rightarrow> set xs \<subseteq> set get_agent_service_types"
      and c: "snd (get_agent_settings u w) = Inr cur"
  shows "\<exists>w4. set_agent_settings u w contact location services_arg =
     (if contact = ret_contact cur \<and> location = ret_location cur
         \<and> map_option (\<lambda>xs. sort (remdups xs)) services_arg = Some (ret_services cur)
      then (fst (get_agent_settings u w), Inr True)
      else (fst (get_agent_settings u w4),
            case snd (get_agent_settings u w4) of
              Inl e \<Rightarrow> Inl e
            | Inr new_settings \<Rightarrow>
                Inr ((contact = PyNone \<or> contact = ret_contact new_settings)
                   \<and> (location = PyNone \<or> location = ret_location new_settings)
                   \<and> (case services_arg of
                        None \<Rightarrow> True
                      | Some xs \<Rightarrow> sort (remdups xs) = ret_services new_settings))))"
  using set_agent_settings_unfold [OF v c, of contact location] by blast

lemma set_agent_settings_True_D:
  fixes u :: "'s utils" and contact location :: pyval
  assumes t: "set_agent_settings u w contact location services_arg = (w1, Inr True)"
  shows "(case services_arg of None \<Rightarrow> True
          | Some xs \<Rightarrow> set xs \<subseteq> set get_agent_service_types)
       \<and> (\<exists>ns. snd (get_agent_settings u w1) = Inr ns
           \<and> (contact = PyNone \<or> contact = ret_contact ns)
           \<and> (location = PyNone \<or> location = ret_location ns)
           \<and> (case services_arg of None \<Rightarrow> True
               | Some xs \<Rightarrow> sort (remdups xs) = ret_services ns))"
proof -
  have "snd (set_agent_settings u w contact location services_arg) = Inr True"
    using t by simp
  from set_agent_settings_Inr_D [OF this]
  obtain cur where v: "case services_arg of None \<Rightarrow> True
          | Some xs \<Rightarrow> set xs \<subseteq> set get_agent_service_types"
    and c: "snd (get_agent_settings u w) = Inr cur"
    by auto
  from set_agent_settings_unfold_ex [OF v c, of contact location]
  obtain w4 where n: "set_agent_settings u w contact location services_arg =
     (if contact = ret_contact cur \<and> location = ret_location cur
         \<and> map_option (\<lambda>xs. sort (remdups xs)) services_arg = Some (ret_services cur)
      then (fst (get_agent_settings u w), Inr True)
      else (fst (get_agent_settings u w4),
            case snd (get_agent_settings u w4) of
              Inl e \<Rightarrow> Inl e
            | Inr new_settings \<Rightarrow>
                Inr ((contact = PyNone \<or> contact = ret_contact new_settings)
                   \<and> (location = PyNone \<or> location = ret_location new_settings)
                   \<and> (case services_arg of
                        None \<Rightarrow> True
                      | Some xs \<Rightarrow> sort (remdups xs) = ret_services new_settings))))"
    by blast
  have "\<exists>ns. snd (get_agent_settings u w1) = Inr ns
           \<and> (contact = PyNone \<or> contact = ret_contact ns)
           \<and> (location = PyNone \<or> location = ret_location ns)
           \<and> (case services_arg of None \<Rightarrow> True
               | Some xs \<Rightarrow> sort (remdups xs) = ret_services ns)"
  proof (cases "contact = ret_contact cur \<and> location = ret_location cur
         \<and> map_option (\<lambda>xs. sort (remdups xs)) services_arg = Some (ret_services cur)")
    case True
    then have "set_agent_settings u w contact location services_arg
        = (fst (get_agent_settings u w), Inr True)"
      unfolding n by simp
    then have "w1 = fst (get_agent_settings u w)" using t by simp
    then have "reg w1 = reg w" by (simp add: get_agent_settings_reg)
    then have "snd (get_agent_settings u w1) = Inr cur"
      using c by (rule reg_get_agent_settings_world)
    moreover have "case services_arg of None \<Rightarrow> True
               | Some xs \<Rightarrow> sort (remdups xs) = ret_services cur"
      using True by (cases services_arg) simp_all
    ultimately show ?thesis using True by blast
  next
    case False
    then have e: "set_agent_settings u w contact location services_arg
        = (fst (get_agent_settings u w4),
            case snd (get_agent_settings u w4) of
              Inl e \<Rightarrow> Inl e
            | Inr new_settings \<Rightarrow>
                Inr ((contact = PyNone \<or> contact = ret_contact new_settings)
                   \<and> (location = PyNone \<or> location = ret_location new_settings)
                   \<and> (case services_arg of
                        None \<Rightarrow> True
                      | Some xs \<Rightarrow> sort (remdups xs) = ret_services new_settings)))"
      unfolding n by (simp only: if_False)
    from e t have w1: "w1 = fst (get_agent_settings u w4)" by simp
    from e t have r: "(case snd (get_agent_settings u w4) of
              Inl e \<Rightarrow> Inl e
            | Inr new_settings \<Rightarrow>
                Inr ((contact = PyNone \<or> contact = ret_contact new_settings)
                   \<and> (location = PyNone \<or> location = ret_location new_settings)
                   \<and> (case services_arg of
                        None \<Rightarrow> True
                      | Some xs \<Rightarrow> sort (remdups xs) = ret_services new_settings)))
             = Inr True" by simp
    then obtain ns where ns: "snd (get_agent_settings u w4) = Inr ns"
      by (cases "snd (get_agent_settings u w4)") simp_all
    with r have ok: "(contact = PyNone \<or> contact = ret_contact ns)
                   \<and> (location = PyNone \<or> location = ret_location ns)
                   \<and> (case services_arg of
                        None \<Rightarrow> True
                      | Some xs \<Rightarrow> sort (remdups xs) = ret_services ns)" by simp
    have "reg w1 = reg w4" by (simp add: w1 get_agent_settings_reg)
    then have "snd (get_agent_settings u w1) = Inr ns"
      using ns by (rule reg_get_agent_settings_world)
    with ok show ?thesis by blast
  qed
  with v show ?thesis by simp
qed

text \<open>
  Claim C6. When a call of \<^verbatim>\<open>set_agent_settings\<close> returns \<^verbatim>\<open>True\<close>, a second call
  with the same arguments in the state the first one left returns \<^verbatim>\<open>True\<close> as well,
  leaves the registry (so the stored \<^verbatim>\<open>sysContact\<close>, \<^verbatim>\<open>sysLocation\<close> and
  \<^verbatim>\<open>sysServices\<close>) as the first call left it, and adds no write to the log. This
  holds for every registry interface, since a read does not change the registry.
\<close>

theorem set_agent_settings_idempotent:
  fixes u :: "'s utils" and contact location :: pyval
  assumes "set_agent_settings u w contact location services_arg = (w1, Inr True)"
  shows "\<exists>w2. set_agent_settings u w1 contact location services_arg = (w2, Inr True)
           \<and> reg w2 = reg w1 \<and> writes (calls w2) = writes (calls w1)"
proof -
  from set_agent_settings_True_D [OF assms]
  obtain ns where v: "case services_arg of None \<Rightarrow> True
          | Some xs \<Rightarrow> set xs \<subseteq> set get_agent_service_types"
    and c: "snd (get_agent_settings u w1) = Inr ns"
    and sc: "contact = PyNone \<or> contact = ret_contact ns"
    and sl: "location = PyNone \<or> location = ret_location ns"
    and ss: "case services_arg of None \<Rightarrow> True
               | Some xs \<Rightarrow> sort (remdups xs) = ret_services ns"
    by blast
  show ?thesis by (rule set_agent_settings_settled [OF v c sc sl ss])
qed


lemma mem_set_agent_settings_first:
  "snd (set_agent_settings mem_utils (start reg_physical) (PyStr ''root'') PyNone
          (Some [''Physical'', ''Internet''])) = Inr True"
  by (simp add: set_agent_settings_def get_agent_settings_def reg_read_value_def
        reg_set_value_def sorted_types_eq SERVICE_TYPES_def reg_physical_def mem_defs Let_def)

text \<open>
  Claim C6 on the registry in memory: a first call that sets a contact and two
  services succeeds, and the second call is settled.
\<close>

theorem set_agent_settings_idempotent_witness:
  "snd (set_agent_settings mem_utils (start reg_physical) (PyStr ''root'') PyNone
          (Some [''Physical'', ''Internet''])) = Inr True
   \<and> (\<exists>w2. set_agent_settings mem_utils
               (fst (set_agent_settings mem_utils (start reg_physical) (PyStr ''root'') PyNone
                      (Some [''Physical'', ''Internet''])))
               (PyStr ''root'') PyNone (Some [''Physical'', ''Internet'']) = (w2, Inr True)
          \<and> reg w2 = reg (fst (set_agent_settings mem_utils (start reg_physical)
                               (PyStr ''root'') PyNone (Some [''Physical'', ''Internet''])))
          \<and> writes (calls w2) =
              writes (calls (fst (set_agent_settings mem_utils (start reg_physical)
                               (PyStr ''root'') PyNone (Some [''Physical'', ''Internet''])))))"
proof -
  let ?r = "set_agent_settings mem_utils (start reg_physical) (PyStr ''root'') PyNone
          (Some [''Physical'', ''Internet''])"
  have "?r = (fst ?r, Inr True)"
    using mem_set_agent_settings_first by (simp add: prod_eq_iff)
  from set_agent_settings_idempotent [OF this] mem_set_agent_settings_first
  show ?thesis by simp
qed

section \<open>The empty list of services\<close>

lemma services_loop_int:
  "\<exists>r. services_loop ts (PyInt c) ret = Inr r \<and> (ret \<noteq> [] \<longrightarrow> r \<noteq> [])"
proof (induction ts arbitrary: c ret)
  case Nil
  then show ?case by simp
next
  case (Cons t ts)
  obtain service bitmask where t: "t = (service, bitmask)" by (cases t)
  show ?case
    using Cons [of "c - bitmask" "ret @ [service]"] Cons [of c ret]
    by (auto simp add: t Let_def)
qed

lemma services_loop_positive:
  "0 < c \<Longrightarrow> \<exists>(service, bitmask) \<in> set ts. bitmask \<le> 1 \<Longrightarrow>
   \<exists>r. services_loop ts (PyInt c) ret = Inr r \<and> r \<noteq> []"
proof (induction ts arbitrary: ret)
  case Nil
  then show ?case by simp
next
  case (Cons t ts)
  obtain service bitmask where t: "t = (service, bitmask)" by (cases t)
  show ?case
  proof (cases "0 \<le> c - bitmask")
    case True
    from services_loop_int [of ts "c - bitmask" "ret @ [service]"]
    show ?thesis using True Cons.prems(1) by (simp add: t Let_def)
  next
    case False
    then have "\<not> bitmask \<le> 1" using Cons.prems(1) by simp
    then have "\<exists>(service, bitmask) \<in> set ts. bitmask \<le> 1"
      using Cons.prems(2) by (auto simp add: t)
    from Cons.IH [OF Cons.prems(1) this, of ret]
    show ?thesis using False Cons.prems(1) by (simp add: t Let_def)
  qed
qed

lemma get_agent_settings_dword:
  assumes "read_value u (reg w) HKEY AGENT_KEY (PyStr ''sysServices'') = PyInt n" and "0 \<le> n"
  shows "\<exists>cur. snd (get_agent_settings u w) = Inr cur \<and> ret_services cur \<noteq> []"
proof (cases "n = 0")
  case True
  then show ?thesis using assms by (simp add: get_agent_settings_snd)
next
  case False
  then have "0 < n" using assms by simp
  moreover have "\<exists>(service, bitmask) \<in> set sorted_types. bitmask \<le> 1"
    by (simp add: sorted_types_eq)
  ultimately obtain r where "services_loop sorted_types (PyInt n) [] = Inr r" "r \<noteq> []"
    using services_loop_positive by blast
  moreover have "sort r \<noteq> []" using \<open>r \<noteq> []\<close> by (metis length_sort length_0_conv)
  ultimately show ?thesis using assms False by (simp add: get_agent_settings_snd)
qed

text \<open>
  Claim C10. Let the reads and the write succeed: \<^verbatim>\<open>sysServices\<close> reads as an integer
  that is not negative (a \<^verbatim>\<open>REG_DWORD\<close>), and after \<open>0\<close> is written to it, it reads as
  \<open>0\<close>. Then \<^verbatim>\<open>set_agent_settings\<close> with the empty list of services returns \<^verbatim>\<open>False\<close>,
  whatever the contact and the location: the current services are never the empty
  list, so the bitmask \<open>0\<close> is written, last of the writes of the call; the settings
  read in the final state have the services \<^verbatim>\<open>["None"]\<close>, which the requested empty
  list does not equal.
\<close>

theorem set_agent_settings_empty_services:
  fixes u :: "'s utils" and contact location :: pyval
  assumes rd: "read_value u (reg w) HKEY AGENT_KEY (PyStr ''sysServices'') = PyInt n"
      and n: "0 \<le> n"
      and wr: "\<And>s. read_value u
                     (set_value u s HKEY AGENT_KEY (PyStr ''sysServices'') (PyInt 0) REG_DWORD)
                     HKEY AGENT_KEY (PyStr ''sysServices'') = PyInt 0"
  shows "snd (set_agent_settings u w contact location (Some [])) = Inr False
       \<and> (\<exists>pre. writes (calls (fst (set_agent_settings u w contact location (Some [])))) =
             writes (calls w) @ pre
             @ [Set_value HKEY AGENT_KEY (PyStr ''sysServices'') (PyInt 0) REG_DWORD])
       \<and> (\<exists>new_settings.
             snd (get_agent_settings u (fst (set_agent_settings u w contact location (Some []))))
               = Inr new_settings
             \<and> ret_services new_settings = [''None''])"
proof -
  from get_agent_settings_dword [OF rd n]
  obtain cur where c: "snd (get_agent_settings u w) = Inr cur" and ne: "ret_services cur \<noteq> []"
    by blast
  have v: "case Some [] of None \<Rightarrow> True
           | Some xs \<Rightarrow> set xs \<subseteq> set get_agent_service_types"
    by simp
  have o: "or_combine [] = 0" by (simp add: or_combine_def)
  define w1 where "w1 = fst (get_agent_settings u w)"
  define w2 where "w2 = (if contact \<noteq> PyNone \<and> contact \<noteq> ret_contact cur
                  then reg_set_value u w1 HKEY AGENT_KEY (PyStr ''sysContact'') contact REG_SZ
                  else w1)"
  define w3 where "w3 = (if location \<noteq> PyNone \<and> location \<noteq> ret_location cur
                  then reg_set_value u w2 HKEY AGENT_KEY (PyStr ''sysLocation'') location REG_SZ
                  else w2)"
  define w4 where "w4 = reg_set_value u w3 HKEY AGENT_KEY (PyStr ''sysServices'')
                             (PyInt 0) REG_DWORD"
  have w4': "(case Some [] of
                    None \<Rightarrow> w3
                  | Some xs \<Rightarrow>
                      if set xs \<noteq> set (ret_services cur)
                      then reg_set_value u w3 HKEY AGENT_KEY (PyStr ''sysServices'')
                             (PyInt (or_combine xs)) REG_DWORD
                      else w3) = w4"
    using ne by (simp add: w4_def o)
  have short: "\<not> (contact = ret_contact cur \<and> location = ret_location cur
         \<and> map_option (\<lambda>xs. sort (remdups xs)) (Some []) = Some (ret_services cur))"
    using ne by auto
  have "read_value u (reg w4) HKEY AGENT_KEY (PyStr ''sysServices'') = PyInt 0"
    by (simp add: w4_def reg_set_value_def wr)
  then have g4: "snd (get_agent_settings u w4) =
      Inr \<lparr>ret_contact = read_value u (reg w4) HKEY AGENT_KEY (PyStr ''sysContact''),
           ret_location = read_value u (reg w4) HKEY AGENT_KEY (PyStr ''sysLocation''),
           ret_services = [''None'']\<rparr>"
    by (simp add: get_agent_settings_snd)
  have e: "set_agent_settings u w contact location (Some []) =
      (fst (get_agent_settings u w4), Inr False)"
    using set_agent_settings_unfold [OF v c, of contact location]
    unfolding w1_def [symmetric] w2_def [symmetric] w3_def [symmetric] w4'
    by (simp only: if_not_P [OF short] g4 sum.case) simp
  have k: "writes (calls w4) = writes (calls w3)
      @ [Set_value HKEY AGENT_KEY (PyStr ''sysServices'') (PyInt 0) REG_DWORD]"
    by (simp add: w4_def writes_reg_set_value)
  have "\<exists>pre. writes (calls w3) = writes (calls w) @ pre"
    by (auto simp add: w3_def w2_def w1_def writes_reg_set_value get_agent_settings_writes)
  then obtain pre where "writes (calls w3) = writes (calls w) @ pre" by blast
  then have "writes (calls (fst (get_agent_settings u w4))) = writes (calls w) @ pre
      @ [Set_value HKEY AGENT_KEY (PyStr ''sysServices'') (PyInt 0) REG_DWORD]"
    by (simp add: get_agent_settings_writes k)
  moreover have "snd (get_agent_settings u (fst (get_agent_settings u w4))) =
      Inr \<lparr>ret_contact = read_value u (reg w4) HKEY AGENT_KEY (PyStr ''sysContact''),
           ret_location = read_value u (reg w4) HKEY AGENT_KEY (PyStr ''sysLocation''),
           ret_services = [''None'']\<rparr>"
    using reg_get_agent_settings_world [OF get_agent_settings_reg g4] .
  ultimately show ?thesis unfolding e by auto
qed


lemma mem_read_after_set:
  "read_value mem_utils (set_value mem_utils s hive key vname vdata ty) hive key vname = vdata"
  by (simp add: mem_utils_def mem_values_def update_conv')

text \<open>Claim C10 on the registry in memory, with the bitmask \<open>1\<close> stored.\<close>

theorem set_agent_settings_empty_services_witness:
  "read_value mem_utils (reg (start reg_physical)) HKEY AGENT_KEY (PyStr ''sysServices'')
     = PyInt 1
   \<and> (0::int) \<le> 1
   \<and> (\<forall>s. read_value mem_utils
             (set_value mem_utils s HKEY AGENT_KEY (PyStr ''sysServices'') (PyInt 0) REG_DWORD)
             HKEY AGENT_KEY (PyStr ''sysServices'') = PyInt 0)
   \<and> snd (set_agent_settings mem_utils (start reg_physical) PyNone PyNone (Some []))
       = Inr False"
proof -
  have rd: "read_value mem_utils (reg (start reg_physical)) HKEY AGENT_KEY
      (PyStr ''sysServices'') = PyInt 1"
    by (simp add: reg_physical_def mem_defs)
  have wr: "\<And>s. read_value mem_utils
             (set_value mem_utils s HKEY AGENT_KEY (PyStr ''sysServices'') (PyInt 0) REG_DWORD)
             HKEY AGENT_KEY (PyStr ''sysServices'') = PyInt 0"
    by (rule mem_read_after_set)
  from set_agent_settings_empty_services [of mem_utils "start reg_physical" 1 PyNone PyNone,
      OF rd _ wr]
  show ?thesis using rd wr by simp
qed

section \<open>Reading the community names\<close>

lemma gpo_loop_map_of:
  "map_of (gpo_loop cvs ret) k =
     (if k \<in> snd ` set (entries_of cvs) then Some (PyStr ''Managed by GPO'') else map_of ret k)"
  by (induction cvs ret rule: gpo_loop.induct) (auto simp add: update_conv')

lemma gpo_loop_empty: "gpo_loop cvs ret = [] \<longleftrightarrow> ret = [] \<and> entries_of cvs = []"
  by (induction cvs ret rule: gpo_loop.induct) auto

lemma permission_name_find:
  "permission_name pts vdata =
     (case find (\<lambda>(name, val). vdata = PyInt val) pts of
        Some (name, val) \<Rightarrow> name
      | None \<Rightarrow> [])"
  by (induction pts) auto

lemma permission_name_first: "permission_name PERMISSION_TYPES vdata = first_permission vdata"
  by (simp add: permission_name_find first_permission_def)

lemma local_loop_map_of:
  "map_of (local_loop cvs ret) k =
     (case map_of (rev (entries_of cvs)) k of
        Some vdata \<Rightarrow> Some (PyStr (first_permission vdata))
      | None \<Rightarrow> map_of ret k)"
  by (induction cvs ret rule: local_loop.induct)
     (auto simp add: update_conv' permission_name_first map_add_def split: option.splits)

lemma local_loop_keys:
  "fst ` set (local_loop cvs ret) = fst ` set ret \<union> fst ` set (entries_of cvs)"
  by (induction cvs ret rule: local_loop.induct) (auto simp add: dom_update)

lemma local_loop_distinct:
  "distinct (map fst ret) \<Longrightarrow> distinct (map fst (local_loop cvs ret))"
  by (induction cvs ret rule: local_loop.induct) (auto simp add: distinct_update)

lemma set_update_subset: "set (AList.update k v al) \<subseteq> insert (k, v) (set al)"
  by (induction al) auto

lemma local_loop_values:
  "(k, p) \<in> set (local_loop cvs ret) \<Longrightarrow>
   (k, p) \<in> set ret \<or> (\<exists>vdata. p = PyStr (first_permission vdata))"
proof (induction cvs ret rule: local_loop.induct)
  case (3 vname vdata rest ret)
  from 3 have "(k, p) \<in> set (AList.update vname (PyStr (first_permission vdata)) ret)
      \<or> (\<exists>vdata. p = PyStr (first_permission vdata))"
    by (simp add: permission_name_first)
  moreover have "set (AList.update vname (PyStr (first_permission vdata)) ret)
      \<subseteq> insert (vname, PyStr (first_permission vdata)) (set ret)"
    by (rule set_update_subset)
  ultimately show ?case by auto
qed auto

lemma first_permission_valid:
  "first_permission vdata = [] \<or> map_of PERMISSION_TYPES (first_permission vdata) \<noteq> None"
  by (simp add: first_permission_def PERMISSION_TYPES_def)


lemma get_community_names_no_gpo:
  assumes "\<not> key_exists u (reg w) HKEY COMMUNITIES_GPO_KEY"
  shows "get_community_names u w =
     (w\<lparr>calls := calls w @ [Key_exists HKEY COMMUNITIES_GPO_KEY,
                               List_values HKEY COMMUNITIES_KEY]\<rparr>,
      case list_values u (reg w) HKEY COMMUNITIES_KEY of
        Values cvs \<Rightarrow> local_loop cvs []
      | Not_a_list \<Rightarrow> [])"
  using assms
  by (simp add: get_community_names_def reg_key_exists_def reg_list_values_def)

lemma get_community_names_gpo:
  assumes "key_exists u (reg w) HKEY COMMUNITIES_GPO_KEY"
      and "list_values u (reg w) HKEY COMMUNITIES_GPO_KEY = Values gvs"
      and "entries_of gvs \<noteq> []"
  shows "get_community_names u w =
     (w\<lparr>calls := calls w @ [Key_exists HKEY COMMUNITIES_GPO_KEY,
                               List_values HKEY COMMUNITIES_GPO_KEY]\<rparr>,
      gpo_loop gvs [])"
  using assms
  by (simp add: get_community_names_def reg_key_exists_def reg_list_values_def gpo_loop_empty)

lemma get_community_names_gpo_none:
  assumes "key_exists u (reg w) HKEY COMMUNITIES_GPO_KEY"
      and "list_values u (reg w) HKEY COMMUNITIES_GPO_KEY = Not_a_list
           \<or> (\<exists>gvs. list_values u (reg w) HKEY COMMUNITIES_GPO_KEY = Values gvs
                     \<and> entries_of gvs = [])"
  shows "get_community_names u w =
     (w\<lparr>calls := calls w @ [Key_exists HKEY COMMUNITIES_GPO_KEY,
                               List_values HKEY COMMUNITIES_GPO_KEY,
                               List_values HKEY COMMUNITIES_KEY]\<rparr>,
      case list_values u (reg w) HKEY COMMUNITIES_KEY of
        Values cvs \<Rightarrow> local_loop cvs []
      | Not_a_list \<Rightarrow> [])"
  using assms
  by (auto simp add: get_community_names_def reg_key_exists_def reg_list_values_def
        gpo_loop_empty split: listing.splits)

lemma set_community_names_gpo:
  assumes "key_exists u (reg w) HKEY COMMUNITIES_GPO_KEY"
  shows "set_community_names u w communities =
     (w\<lparr>calls := calls w @ [Key_exists HKEY COMMUNITIES_GPO_KEY]\<rparr>,
      Inl (CommandExecutionError ''Communities on this system are managed by Group Policy''))"
  using assms by (simp add: set_community_names_def reg_key_exists_def)


lemma issued_append: "calls w' = calls w @ cs \<Longrightarrow> issued w w' = cs"
  by (simp add: issued_def)

lemma keys_differ: "COMMUNITIES_KEY \<noteq> COMMUNITIES_GPO_KEY"
  by (simp add: COMMUNITIES_KEY_def COMMUNITIES_GPO_KEY_def SNMP_KEY_def SNMP_GPO_KEY_def)

text \<open>
  Claim C8. When the Group Policy community key exists and its enumeration has a
  well-formed entry, \<^verbatim>\<open>get_community_names\<close> makes two calls, the existence check and
  the enumeration of that key, so the local key is not enumerated, and the result
  maps the data of each well-formed entry (a community name) to \<^verbatim>\<open>"Managed by GPO"\<close>
  and nothing else. When the key is absent, or its enumeration is not a list or has
  no well-formed entry, the local key is enumerated and the result maps the name of
  each well-formed entry to the first permission type, in declared order, whose value
  equals the entry's data, or to the empty string (for a name listed twice the last
  entry counts); it is empty when that enumeration is not a list. So a Group Policy
  key that exists and is empty falls through to the local read, while
  \<^verbatim>\<open>set_community_names\<close> raises on it.
\<close>

theorem get_community_names_precedence:
  fixes u :: "'s utils" and w :: "'s world"
  defines "r \<equiv> get_community_names u w"
  shows "(key_exists u (reg w) HKEY COMMUNITIES_GPO_KEY
          \<and> list_values u (reg w) HKEY COMMUNITIES_GPO_KEY = Values gvs
          \<and> entries_of gvs \<noteq> [] \<longrightarrow>
            issued w (fst r) =
              [Key_exists HKEY COMMUNITIES_GPO_KEY, List_values HKEY COMMUNITIES_GPO_KEY]
            \<and> List_values HKEY COMMUNITIES_KEY \<notin> set (issued w (fst r))
            \<and> (\<forall>k. map_of (snd r) k =
                  (if k \<in> snd ` set (entries_of gvs) then Some (PyStr ''Managed by GPO'')
                   else None)))
       \<and> (\<not> key_exists u (reg w) HKEY COMMUNITIES_GPO_KEY
          \<or> list_values u (reg w) HKEY COMMUNITIES_GPO_KEY = Not_a_list
          \<or> (\<exists>evs. list_values u (reg w) HKEY COMMUNITIES_GPO_KEY = Values evs
                    \<and> entries_of evs = []) \<longrightarrow>
            List_values HKEY COMMUNITIES_KEY \<in> set (issued w (fst r))
            \<and> (case list_values u (reg w) HKEY COMMUNITIES_KEY of
                 Not_a_list \<Rightarrow> snd r = []
               | Values lvs \<Rightarrow>
                   \<forall>k. map_of (snd r) k =
                     map_option (\<lambda>vdata. PyStr (first_permission vdata))
                       (map_of (rev (entries_of lvs)) k)))
       \<and> (key_exists u (reg w) HKEY COMMUNITIES_GPO_KEY
          \<and> list_values u (reg w) HKEY COMMUNITIES_GPO_KEY = Values [] \<longrightarrow>
            List_values HKEY COMMUNITIES_KEY \<in> set (issued w (fst r))
            \<and> snd (set_community_names u w communities) =
                Inl (CommandExecutionError
                       ''Communities on this system are managed by Group Policy''))"
proof (intro conjI impI)
  assume a: "key_exists u (reg w) HKEY COMMUNITIES_GPO_KEY
          \<and> list_values u (reg w) HKEY COMMUNITIES_GPO_KEY = Values gvs
          \<and> entries_of gvs \<noteq> []"
  then have e: "r = (w\<lparr>calls := calls w @ [Key_exists HKEY COMMUNITIES_GPO_KEY,
                               List_values HKEY COMMUNITIES_GPO_KEY]\<rparr>, gpo_loop gvs [])"
    unfolding r_def by (simp add: get_community_names_gpo)
  show i: "issued w (fst r) =
      [Key_exists HKEY COMMUNITIES_GPO_KEY, List_values HKEY COMMUNITIES_GPO_KEY]"
    by (simp add: e issued_def)
  show "List_values HKEY COMMUNITIES_KEY \<notin> set (issued w (fst r))"
    by (simp add: i keys_differ)
  show "\<forall>k. map_of (snd r) k =
          (if k \<in> snd ` set (entries_of gvs) then Some (PyStr ''Managed by GPO'') else None)"
    by (simp add: e gpo_loop_map_of)
next
  assume a: "\<not> key_exists u (reg w) HKEY COMMUNITIES_GPO_KEY
          \<or> list_values u (reg w) HKEY COMMUNITIES_GPO_KEY = Not_a_list
          \<or> (\<exists>evs. list_values u (reg w) HKEY COMMUNITIES_GPO_KEY = Values evs
                    \<and> entries_of evs = [])"
  have s: "snd r = (case list_values u (reg w) HKEY COMMUNITIES_KEY of
        Values cvs \<Rightarrow> local_loop cvs [] | Not_a_list \<Rightarrow> [])
      \<and> List_values HKEY COMMUNITIES_KEY \<in> set (issued w (fst r))"
  proof (cases "key_exists u (reg w) HKEY COMMUNITIES_GPO_KEY")
    case True
    with a have "list_values u (reg w) HKEY COMMUNITIES_GPO_KEY = Not_a_list
           \<or> (\<exists>gvs. list_values u (reg w) HKEY COMMUNITIES_GPO_KEY = Values gvs
                     \<and> entries_of gvs = [])" by simp
    from get_community_names_gpo_none [OF True this]
    show ?thesis unfolding r_def by (simp add: issued_def)
  next
    case False
    from get_community_names_no_gpo [OF False]
    show ?thesis unfolding r_def by (simp add: issued_def)
  qed
  then show "List_values HKEY COMMUNITIES_KEY \<in> set (issued w (fst r))" by simp
  show "case list_values u (reg w) HKEY COMMUNITIES_KEY of
                 Not_a_list \<Rightarrow> snd r = []
               | Values lvs \<Rightarrow>
                   \<forall>k. map_of (snd r) k =
                     map_option (\<lambda>vdata. PyStr (first_permission vdata))
                       (map_of (rev (entries_of lvs)) k)"
    using s by (auto simp add: local_loop_map_of split: listing.splits option.splits)
next
  assume a: "key_exists u (reg w) HKEY COMMUNITIES_GPO_KEY
          \<and> list_values u (reg w) HKEY COMMUNITIES_GPO_KEY = Values []"
  then have "list_values u (reg w) HKEY COMMUNITIES_GPO_KEY = Not_a_list
           \<or> (\<exists>gvs. list_values u (reg w) HKEY COMMUNITIES_GPO_KEY = Values gvs
                     \<and> entries_of gvs = [])" by simp
  from get_community_names_gpo_none [OF _ this] a
  show "List_values HKEY COMMUNITIES_KEY \<in> set (issued w (fst r))"
    unfolding r_def by (simp add: issued_def)
  show "snd (set_community_names u w communities) =
                Inl (CommandExecutionError
                       ''Communities on this system are managed by Group Policy'')"
    using a by (simp add: set_community_names_gpo)
qed

text \<open>
  Claim C4. Whenever the Group Policy community key exists, \<^verbatim>\<open>set_community_names\<close>
  raises \<^verbatim>\<open>CommandExecutionError\<close> with the Group Policy message, whatever the key
  holds and whatever mapping is requested; its only call is the existence check, so
  the registry is as before and no write or delete is issued.
\<close>

theorem set_community_names_gpo_raises:
  assumes "key_exists u (reg w) HKEY COMMUNITIES_GPO_KEY"
  shows "set_community_names u w communities =
           (w\<lparr>calls := calls w @ [Key_exists HKEY COMMUNITIES_GPO_KEY]\<rparr>,
            Inl (CommandExecutionError
                   ''Communities on this system are managed by Group Policy''))
       \<and> reg (fst (set_community_names u w communities)) = reg w
       \<and> writes (calls (fst (set_community_names u w communities))) = writes (calls w)"
  using assms by (simp add: set_community_names_gpo writes_def)


text \<open>
  Claim C8 on the registries in memory: one with two Group Policy communities, one
  without the Group Policy key, one with an empty Group Policy key.
\<close>

theorem get_community_names_precedence_witness:
  "key_exists mem_utils (reg (start reg_gpo)) HKEY COMMUNITIES_GPO_KEY
   \<and> list_values mem_utils (reg (start reg_gpo)) HKEY COMMUNITIES_GPO_KEY =
       Values [Entry (PyStr ''1'') (PyStr ''corp''), Entry (PyStr ''2'') (PyStr ''lab'')]
   \<and> issued (start reg_gpo) (fst (get_community_names mem_utils (start reg_gpo))) =
       [Key_exists HKEY COMMUNITIES_GPO_KEY, List_values HKEY COMMUNITIES_GPO_KEY]
   \<and> map_of (snd (get_community_names mem_utils (start reg_gpo))) (PyStr ''corp'') =
       Some (PyStr ''Managed by GPO'')
   \<and> map_of (snd (get_community_names mem_utils (start reg_gpo))) (PyStr ''a'') = None
   \<and> \<not> key_exists mem_utils (reg (start reg_local)) HKEY COMMUNITIES_GPO_KEY
   \<and> list_values mem_utils (reg (start reg_local)) HKEY COMMUNITIES_KEY =
       Values [Entry (PyStr ''a'') (PyInt 4)]
   \<and> map_of (snd (get_community_names mem_utils (start reg_local))) (PyStr ''a'') =
       Some (PyStr ''Read Only'')
   \<and> key_exists mem_utils (reg (start reg_gpo_empty)) HKEY COMMUNITIES_GPO_KEY
   \<and> list_values mem_utils (reg (start reg_gpo_empty)) HKEY COMMUNITIES_GPO_KEY = Values []
   \<and> List_values HKEY COMMUNITIES_KEY
       \<in> set (issued (start reg_gpo_empty)
                (fst (get_community_names mem_utils (start reg_gpo_empty))))
   \<and> snd (set_community_names mem_utils (start reg_gpo_empty)
            [(PyStr ''a'', PyStr ''Read Only'')]) =
       Inl (CommandExecutionError ''Communities on this system are managed by Group Policy'')"
proof -
  have g1: "key_exists mem_utils (reg (start reg_gpo)) HKEY COMMUNITIES_GPO_KEY"
    by (simp add: reg_gpo_def mem_defs)
  have g2: "list_values mem_utils (reg (start reg_gpo)) HKEY COMMUNITIES_GPO_KEY =
       Values [Entry (PyStr ''1'') (PyStr ''corp''), Entry (PyStr ''2'') (PyStr ''lab'')]"
    by (simp add: reg_gpo_def mem_defs)
  have l1: "\<not> key_exists mem_utils (reg (start reg_local)) HKEY COMMUNITIES_GPO_KEY"
    by (simp add: reg_local_def mem_defs)
  have l2: "list_values mem_utils (reg (start reg_local)) HKEY COMMUNITIES_KEY =
       Values [Entry (PyStr ''a'') (PyInt 4)]"
    by (simp add: reg_local_def mem_defs)
  have e1: "key_exists mem_utils (reg (start reg_gpo_empty)) HKEY COMMUNITIES_GPO_KEY"
    by (simp add: reg_gpo_empty_def mem_defs)
  have e2: "list_values mem_utils (reg (start reg_gpo_empty)) HKEY COMMUNITIES_GPO_KEY
      = Values []"
    by (simp add: reg_gpo_empty_def mem_defs)
  have f: "first_permission (PyInt 4) = ''Read Only''"
    by (simp add: first_permission_def PERMISSION_TYPES_def)
  note t1 = get_community_names_precedence [of mem_utils "start reg_gpo"
      "[Entry (PyStr ''1'') (PyStr ''corp''), Entry (PyStr ''2'') (PyStr ''lab'')]"]
  note t2 = get_community_names_precedence [of mem_utils "start reg_local"]
  note t3 = get_community_names_precedence [of mem_utils "start reg_gpo_empty" _
      "[(PyStr ''a'', PyStr ''Read Only'')]"]
  have a: "issued (start reg_gpo) (fst (get_community_names mem_utils (start reg_gpo))) =
       [Key_exists HKEY COMMUNITIES_GPO_KEY, List_values HKEY COMMUNITIES_GPO_KEY]
     \<and> map_of (snd (get_community_names mem_utils (start reg_gpo))) (PyStr ''corp'') =
       Some (PyStr ''Managed by GPO'')
     \<and> map_of (snd (get_community_names mem_utils (start reg_gpo))) (PyStr ''a'') = None"
    using t1 g1 g2 by simp
  have b: "map_of (snd (get_community_names mem_utils (start reg_local))) (PyStr ''a'') =
       Some (PyStr ''Read Only'')"
    using t2 l1 l2 f by simp
  have c: "List_values HKEY COMMUNITIES_KEY
       \<in> set (issued (start reg_gpo_empty)
                (fst (get_community_names mem_utils (start reg_gpo_empty))))
     \<and> snd (set_community_names mem_utils (start reg_gpo_empty)
            [(PyStr ''a'', PyStr ''Read Only'')]) =
       Inl (CommandExecutionError ''Communities on this system are managed by Group Policy'')"
    using t3 e1 e2 by simp
  show ?thesis using g1 g2 l1 l2 e1 e2 a b c by (simp only: simp_thms)
qed

text \<open>Claim C4 on the registries in memory whose Group Policy key exists.\<close>

theorem set_community_names_gpo_raises_witness:
  "key_exists mem_utils (reg (start reg_gpo_empty)) HKEY COMMUNITIES_GPO_KEY
   \<and> set_community_names mem_utils (start reg_gpo_empty) [(PyStr ''b'', PyStr ''Notify'')] =
       (\<lparr>reg = reg_gpo_empty, calls = [Key_exists HKEY COMMUNITIES_GPO_KEY]\<rparr>,
        Inl (CommandExecutionError ''Communities on this system are managed by Group Policy''))
   \<and> key_exists mem_utils (reg (start reg_gpo)) HKEY COMMUNITIES_GPO_KEY
   \<and> writes (calls (fst (set_community_names mem_utils (start reg_gpo) []))) = []"
proof -
  have e1: "key_exists mem_utils (reg (start reg_gpo_empty)) HKEY COMMUNITIES_GPO_KEY"
    by (simp add: reg_gpo_empty_def mem_defs)
  have g1: "key_exists mem_utils (reg (start reg_gpo)) HKEY COMMUNITIES_GPO_KEY"
    by (simp add: reg_gpo_def mem_defs)
  from set_community_names_gpo_raises [OF e1, of "[(PyStr ''b'', PyStr ''Notify'')]"]
    set_community_names_gpo_raises [OF g1, of "[]"]
  show ?thesis using e1 g1 by (simp add: start_def writes_def)
qed

section \<open>Writing the community names\<close>

lemma permission_value_normalized:
  "permission_value (normalized p) = None \<longleftrightarrow> truthy p \<and> permission_value p = None"
  by (simp add: normalized_def PERMISSION_TYPES_def)

lemma values_loop_invalid:
  assumes "distinct ks"
      and "\<forall>k\<in>set ks. map_of comm k \<noteq> None"
      and "\<exists>k\<in>set ks. \<exists>p. map_of comm k = Some p \<and> truthy p \<and> permission_value p = None"
  shows "\<exists>k\<in>set ks. \<exists>p. map_of comm k = Some p \<and> truthy p \<and> permission_value p = None
           \<and> values_loop ks comm vals =
               Inl (SaltInvocationError
                 (''Invalid permission '' @ quoted (py_str p)
                  @ '' specified. Valid permissions: ''
                  @ ''dict_keys('' @ py_repr_names (map fst PERMISSION_TYPES) @ '')''))"
  using assms
proof (induction ks arbitrary: comm vals)
  case Nil
  then show ?case by simp
next
  case (Cons k ks)
  from Cons.prems(2) obtain p where p: "map_of comm k = Some p" by auto
  show ?case
  proof (cases "truthy p \<and> permission_value p = None")
    case True
    then show ?thesis using p by (simp add: Let_def)
  next
    case False
    define comm1 where
      "comm1 = (if \<not> truthy p then AList.update k (PyStr ''None'') comm else comm)"
    have nk: "k \<notin> set ks" and d: "distinct ks" using Cons.prems(1) by simp_all
    have same: "\<And>k'. k' \<in> set ks \<Longrightarrow> map_of comm1 k' = map_of comm k'"
      using nk by (auto simp add: comm1_def update_conv')
    from False have "permission_value (normalized p) \<noteq> None"
      by (simp add: permission_value_normalized)
    then obtain v where v: "permission_value (if \<not> truthy p then PyStr ''None'' else p) = Some v"
      by (cases "truthy p") (auto simp add: normalized_def)
    have a: "\<forall>k'\<in>set ks. map_of comm1 k' \<noteq> None"
      using Cons.prems(2) same by simp
    have "\<exists>k'\<in>set ks. \<exists>q. map_of comm k' = Some q \<and> truthy q \<and> permission_value q = None"
      using Cons.prems(3) False p by auto
    then have b: "\<exists>k'\<in>set ks. \<exists>q. map_of comm1 k' = Some q \<and> truthy q
        \<and> permission_value q = None"
      using same by auto
    from Cons.IH [OF d a b, of "AList.update k (PyInt v) vals"]
    obtain k' q where "k' \<in> set ks" "map_of comm1 k' = Some q" "truthy q"
      "permission_value q = None"
      "values_loop ks comm1 (AList.update k (PyInt v) vals) =
         Inl (SaltInvocationError
                 (''Invalid permission '' @ quoted (py_str q)
                  @ '' specified. Valid permissions: ''
                  @ ''dict_keys('' @ py_repr_names (map fst PERMISSION_TYPES) @ '')''))"
      by blast
    moreover have "values_loop (k # ks) comm vals
        = values_loop ks comm1 (AList.update k (PyInt v) vals)"
      using p v by (simp add: Let_def comm1_def)
    ultimately show ?thesis using same by (metis list.set_intros(2))
  qed
qed

lemma values_loop_ok:
  assumes "distinct ks"
      and "\<forall>k\<in>set ks. \<exists>p v. map_of comm k = Some p \<and> permission_value (normalized p) = Some v"
  shows "\<exists>comm' vals'. values_loop ks comm vals = Inr (comm', vals')
           \<and> (\<forall>k. map_of vals' k =
                 (if k \<in> set ks
                  then map_option PyInt
                         (Option.bind (map_of comm k) (\<lambda>p. permission_value (normalized p)))
                  else map_of vals k))
           \<and> (\<forall>k. map_of comm' k =
                 (if k \<in> set ks then map_option normalized (map_of comm k) else map_of comm k))
           \<and> map fst comm' = map fst comm"
  using assms
proof (induction ks arbitrary: comm vals)
  case Nil
  then show ?case by simp
next
  case (Cons k ks)
  from Cons.prems(2) obtain p v where p: "map_of comm k = Some p"
    and v: "permission_value (normalized p) = Some v" by auto
  define comm1 where
    "comm1 = (if \<not> truthy p then AList.update k (PyStr ''None'') comm else comm)"
  have nk: "k \<notin> set ks" and d: "distinct ks" using Cons.prems(1) by simp_all
  have same: "\<And>k'. k' \<noteq> k \<Longrightarrow> map_of comm1 k' = map_of comm k'"
    by (auto simp add: comm1_def update_conv')
  have same': "map_of comm1 k' = map_of comm k'" if "k' \<in> set ks" for k'
  proof -
    from that nk have "k' \<noteq> k" by auto
    then show ?thesis by (rule same)
  qed
  have atk: "map_of comm1 k = Some (normalized p)"
    using p by (auto simp add: comm1_def update_conv' normalized_def)
  have keys: "map fst comm1 = map fst comm"
    using p by (auto simp add: comm1_def update_keys dest: map_of_SomeD
        intro: rev_image_eqI)
  have a: "\<forall>k'\<in>set ks. \<exists>p v. map_of comm1 k' = Some p
      \<and> permission_value (normalized p) = Some v"
  proof
    fix k'
    assume k': "k' \<in> set ks"
    then have "k' \<noteq> k" using nk by auto
    then have "map_of comm1 k' = map_of comm k'" by (rule same)
    moreover have "\<exists>p v. map_of comm k' = Some p \<and> permission_value (normalized p) = Some v"
      using Cons.prems(2) k' by simp
    ultimately show "\<exists>p v. map_of comm1 k' = Some p
      \<and> permission_value (normalized p) = Some v" by simp
  qed
  from Cons.IH [OF d a, of "AList.update k (PyInt v) vals"]
  obtain comm' vals' where r: "values_loop ks comm1 (AList.update k (PyInt v) vals)
      = Inr (comm', vals')"
    and rv: "\<forall>k'. map_of vals' k' =
                 (if k' \<in> set ks
                  then map_option PyInt
                         (Option.bind (map_of comm1 k') (\<lambda>p. permission_value (normalized p)))
                  else map_of (AList.update k (PyInt v) vals) k')"
    and rc: "\<forall>k'. map_of comm' k' =
                 (if k' \<in> set ks then map_option normalized (map_of comm1 k')
                  else map_of comm1 k')"
    and rk: "map fst comm' = map fst comm1"
    by blast
  have v': "permission_value (if \<not> truthy p then PyStr ''None'' else p) = Some v"
    using v by (cases "truthy p") (simp_all add: normalized_def)
  have e: "values_loop (k # ks) comm vals
        = values_loop ks comm1 (AList.update k (PyInt v) vals)"
    using p v' by (simp add: Let_def comm1_def)
  have "\<forall>k'. map_of vals' k' =
                 (if k' \<in> set (k # ks)
                  then map_option PyInt
                         (Option.bind (map_of comm k') (\<lambda>p. permission_value (normalized p)))
                  else map_of vals k')"
    using rv same' nk p v by (auto simp add: update_conv')
  moreover have "\<forall>k'. map_of comm' k' =
                 (if k' \<in> set (k # ks) then map_option normalized (map_of comm k')
                  else map_of comm k')"
    using rc same same' nk p atk by auto
  ultimately show ?case using e r rk keys by simp
qed


lemma check_current_calls:
  "\<exists>cs. calls (check_current u cur vals w) = calls w @ cs
     \<and> (\<forall>(k, p)\<in>set cur. map_of vals k = None \<longrightarrow>
           Delete_value HKEY COMMUNITIES_KEY k \<in> set cs)
     \<and> (\<forall>(k, p)\<in>set cur. \<forall>v. map_of vals k = Some v \<and> p \<noteq> v \<longrightarrow>
           Set_value HKEY COMMUNITIES_KEY k v REG_DWORD \<in> set cs)"
proof (induction cur arbitrary: w)
  case Nil
  then show ?case by simp
next
  case (Cons c cur)
  obtain k p where c: "c = (k, p)" by (cases c)
  show ?case
  proof (cases "map_of vals k")
    case None
    from Cons [of "reg_delete_value u w HKEY COMMUNITIES_KEY k"]
    obtain cs where "calls (check_current u cur vals (reg_delete_value u w HKEY COMMUNITIES_KEY k))
        = calls (reg_delete_value u w HKEY COMMUNITIES_KEY k) @ cs"
      and "\<forall>(k, p)\<in>set cur. map_of vals k = None \<longrightarrow>
           Delete_value HKEY COMMUNITIES_KEY k \<in> set cs"
      and "\<forall>(k, p)\<in>set cur. \<forall>v. map_of vals k = Some v \<and> p \<noteq> v \<longrightarrow>
           Set_value HKEY COMMUNITIES_KEY k v REG_DWORD \<in> set cs"
      by blast
    then show ?thesis
      using None
      by (intro exI [of _ "Delete_value HKEY COMMUNITIES_KEY k # cs"])
         (auto simp add: c reg_delete_value_def)
  next
    case (Some v)
    show ?thesis
    proof (cases "p \<noteq> v")
      case True
      from Cons [of "reg_set_value u w HKEY COMMUNITIES_KEY k v REG_DWORD"]
      obtain cs where
        "calls (check_current u cur vals (reg_set_value u w HKEY COMMUNITIES_KEY k v REG_DWORD))
          = calls (reg_set_value u w HKEY COMMUNITIES_KEY k v REG_DWORD) @ cs"
        and "\<forall>(k, p)\<in>set cur. map_of vals k = None \<longrightarrow>
           Delete_value HKEY COMMUNITIES_KEY k \<in> set cs"
        and "\<forall>(k, p)\<in>set cur. \<forall>v. map_of vals k = Some v \<and> p \<noteq> v \<longrightarrow>
           Set_value HKEY COMMUNITIES_KEY k v REG_DWORD \<in> set cs"
        by blast
      then show ?thesis
        using Some True
        by (intro exI [of _ "Set_value HKEY COMMUNITIES_KEY k v REG_DWORD # cs"])
           (auto simp add: c reg_set_value_def)
    next
      case False
      from Cons [of w]
      obtain cs where "calls (check_current u cur vals w) = calls w @ cs"
        and "\<forall>(k, p)\<in>set cur. map_of vals k = None \<longrightarrow>
           Delete_value HKEY COMMUNITIES_KEY k \<in> set cs"
        and "\<forall>(k, p)\<in>set cur. \<forall>v. map_of vals k = Some v \<and> p \<noteq> v \<longrightarrow>
           Set_value HKEY COMMUNITIES_KEY k v REG_DWORD \<in> set cs"
        by blast
      then show ?thesis
        using Some False by (intro exI [of _ cs]) (auto simp add: c)
    qed
  qed
qed

lemma create_new_calls:
  "\<exists>cs. calls (create_new u vals cur w) = calls w @ cs
     \<and> (\<forall>(k, v)\<in>set vals. map_of cur k = None \<longrightarrow>
           Set_value HKEY COMMUNITIES_KEY k v REG_DWORD \<in> set cs)"
proof (induction vals arbitrary: w)
  case Nil
  then show ?case by simp
next
  case (Cons c vals)
  obtain k v where c: "c = (k, v)" by (cases c)
  show ?case
  proof (cases "map_of cur k")
    case None
    from Cons [of "reg_set_value u w HKEY COMMUNITIES_KEY k v REG_DWORD"]
    obtain cs where
      "calls (create_new u vals cur (reg_set_value u w HKEY COMMUNITIES_KEY k v REG_DWORD))
        = calls (reg_set_value u w HKEY COMMUNITIES_KEY k v REG_DWORD) @ cs"
      and "\<forall>(k, v)\<in>set vals. map_of cur k = None \<longrightarrow>
           Set_value HKEY COMMUNITIES_KEY k v REG_DWORD \<in> set cs"
      by blast
    then show ?thesis
      using None
      by (intro exI [of _ "Set_value HKEY COMMUNITIES_KEY k v REG_DWORD # cs"])
         (auto simp add: c reg_set_value_def)
  next
    case (Some q)
    from Cons [of w]
    obtain cs where "calls (create_new u vals cur w) = calls w @ cs"
      and "\<forall>(k, v)\<in>set vals. map_of cur k = None \<longrightarrow>
           Set_value HKEY COMMUNITIES_KEY k v REG_DWORD \<in> set cs"
      by blast
    then show ?thesis
      using Some by (intro exI [of _ cs]) (auto simp add: c)
  qed
qed

lemma get_community_names_calls:
  "\<exists>cs. calls (fst (get_community_names u w)) = calls w @ cs \<and> writes cs = []"
  by (auto simp add: get_community_names_def reg_key_exists_def reg_list_values_def Let_def
        writes_def split: prod.splits)

lemma get_community_names_reg: "reg (fst (get_community_names u w)) = reg w"
  by (auto simp add: get_community_names_def reg_key_exists_def reg_list_values_def Let_def
        split: prod.splits)

lemma get_community_names_cong:
  "reg w' = reg w \<Longrightarrow> snd (get_community_names u w') = snd (get_community_names u w)"
  by (auto simp add: get_community_names_def reg_key_exists_def reg_list_values_def Let_def
        split: prod.splits)

lemma set_community_names_no_gpo:
  assumes "\<not> key_exists u (reg w) HKEY COMMUNITIES_GPO_KEY"
  defines "w1 \<equiv> w\<lparr>calls := calls w @ [Key_exists HKEY COMMUNITIES_GPO_KEY]\<rparr>"
  defines "w2 \<equiv> fst (get_community_names u w1)"
  defines "current_communities \<equiv> snd (get_community_names u w1)"
  shows "set_community_names u w communities_arg =
     (if dict_eq communities_arg current_communities then (w2, Inr True)
      else
        (case values_loop (map fst communities_arg) communities_arg [] of
           Inl e \<Rightarrow> (w2, Inl e)
         | Inr (communities, vals) \<Rightarrow>
            (let w3 = check_current u current_communities vals w2;
                 w4 = create_new u vals current_communities w3;
                 w5 = fst (get_community_names u w4);
                 new_communities = snd (get_community_names u w4)
             in case failed_requested communities new_communities of
                  Inl e \<Rightarrow> (w5, Inl e)
                | Inr failed \<Rightarrow>
                    (w5, Inr (failed_new new_communities communities @ failed = [])))))"
  using assms(1) unfolding w1_def w2_def current_communities_def
  by (simp add: set_community_names_def reg_key_exists_def Let_def case_prod_beta
        split: sum.splits)

lemma current_local_values:
  assumes "\<not> key_exists u (reg w) HKEY COMMUNITIES_GPO_KEY"
      and "(k, p) \<in> set (snd (get_community_names u w))"
  shows "\<not> truthy p \<or> permission_value p \<noteq> None"
proof -
  from assms obtain cvs where "(k, p) \<in> set (local_loop cvs [])"
    by (auto simp add: get_community_names_no_gpo split: listing.splits)
  from local_loop_values [OF this] obtain vdata where p: "p = PyStr (first_permission vdata)"
    by auto
  show ?thesis using first_permission_valid [of vdata] by (auto simp add: p)
qed

lemma dict_eq_item: "dict_eq a b \<Longrightarrow> (k, p) \<in> set a \<Longrightarrow> (k, p) \<in> set b"
  by (auto simp add: dict_eq_def list_all_iff dest: map_of_SomeD)

lemma set_community_names_invalid:
  assumes nogpo: "\<not> key_exists u (reg w) HKEY COMMUNITIES_GPO_KEY"
      and d: "distinct (map fst communities)"
      and bad: "(k, p) \<in> set communities" "truthy p" "permission_value p = None"
  shows "\<exists>k' p'. (k', p') \<in> set communities \<and> truthy p' \<and> permission_value p' = None
           \<and> snd (set_community_names u w communities) =
               Inl (SaltInvocationError
                 (''Invalid permission '' @ quoted (py_str p')
                  @ '' specified. Valid permissions: ''
                  @ ''dict_keys('' @ py_repr_names (map fst PERMISSION_TYPES) @ '')''))
           \<and> reg (fst (set_community_names u w communities)) = reg w
           \<and> writes (calls (fst (set_community_names u w communities))) = writes (calls w)"
proof -
  define w1 where "w1 = w\<lparr>calls := calls w @ [Key_exists HKEY COMMUNITIES_GPO_KEY]\<rparr>"
  have r1: "reg w1 = reg w" by (simp add: w1_def)
  have nogpo1: "\<not> key_exists u (reg w1) HKEY COMMUNITIES_GPO_KEY" using nogpo r1 by simp
  have ne: "\<not> dict_eq communities (snd (get_community_names u w1))"
  proof
    assume "dict_eq communities (snd (get_community_names u w1))"
    then have "(k, p) \<in> set (snd (get_community_names u w1))"
      using bad(1) by (rule dict_eq_item)
    from current_local_values [OF nogpo1 this] bad show False by simp
  qed
  have m: "\<And>k p. (k, p) \<in> set communities \<Longrightarrow> map_of communities k = Some p"
    using d by simp
  have a: "\<forall>k\<in>set (map fst communities). map_of communities k \<noteq> None"
    using m by auto
  have b: "\<exists>k\<in>set (map fst communities). \<exists>p. map_of communities k = Some p \<and> truthy p
      \<and> permission_value p = None"
    using bad m by force
  from values_loop_invalid [OF d a b, of "[]"]
  obtain k' p' where k': "map_of communities k' = Some p'" "truthy p'"
      "permission_value p' = None"
    and v: "values_loop (map fst communities) communities [] =
               Inl (SaltInvocationError
                 (''Invalid permission '' @ quoted (py_str p')
                  @ '' specified. Valid permissions: ''
                  @ ''dict_keys('' @ py_repr_names (map fst PERMISSION_TYPES) @ '')''))"
    by blast
  have e: "set_community_names u w communities =
      (fst (get_community_names u w1),
       Inl (SaltInvocationError
                 (''Invalid permission '' @ quoted (py_str p')
                  @ '' specified. Valid permissions: ''
                  @ ''dict_keys('' @ py_repr_names (map fst PERMISSION_TYPES) @ '')'')))"
    using set_community_names_no_gpo [OF nogpo, of communities] ne v
    unfolding w1_def [symmetric] by simp
  obtain cs where cs: "calls (fst (get_community_names u w1)) = calls w1 @ cs" "writes cs = []"
    using get_community_names_calls by blast
  have "writes (calls (fst (get_community_names u w1))) = writes (calls w)"
    using cs by (simp add: writes_def w1_def)
  moreover have "reg (fst (get_community_names u w1)) = reg w"
    by (simp add: get_community_names_reg r1)
  moreover have "(k', p') \<in> set communities" using k'(1) by (rule map_of_SomeD)
  ultimately show ?thesis using k' unfolding e by auto
qed


lemma valid_names_repr:
  "py_repr_names get_agent_service_types =
     ''['None', 'Physical', 'Datalink and subnetwork', 'Internet', 'End-to-end', 'Applications']''"
  "py_repr_names (map fst PERMISSION_TYPES) =
     ''['None', 'Notify', 'Read Only', 'Read Write', 'Read Create']''"
  by (simp_all add: py_repr_names_def quoted_def get_agent_service_types_def SERVICE_TYPES_def
        PERMISSION_TYPES_def)

text \<open>
  Claim C5, as amended. A list of services with a name that is not a service type
  makes \<^verbatim>\<open>set_agent_settings\<close> raise \<^verbatim>\<open>SaltInvocationError\<close> in the state it was
  called in, before any call to the registry; the message names the first such name
  of the sorted list and lists the service types. When the Group Policy community
  key does not exist, a requested mapping with a permission that is truthy and not a
  permission type makes \<^verbatim>\<open>set_community_names\<close> raise \<^verbatim>\<open>SaltInvocationError\<close> with a
  message that names such a permission and lists the permission types; the registry
  is as before and no write or delete has been issued.
\<close>

theorem invalid_names_raise:
  fixes u :: "'s utils" and w :: "'s world" and contact location :: pyval
  shows "(\<not> set xs \<subseteq> set get_agent_service_types \<longrightarrow>
            (let bad = hd (filter (\<lambda>x. x \<notin> set get_agent_service_types) (sort (remdups xs)))
             in bad \<in> set xs \<and> bad \<notin> set get_agent_service_types
                \<and> set_agent_settings u w contact location (Some xs) =
                    (w, Inl (SaltInvocationError
                       (''Invalid service '' @ quoted bad @ '' specified. Valid services: ''
                        @ ''['None', 'Physical', 'Datalink and subnetwork', 'Internet', 'End-to-end', 'Applications']'')))))
       \<and> (\<not> key_exists u (reg w) HKEY COMMUNITIES_GPO_KEY
          \<and> distinct (map fst communities)
          \<and> (k, p) \<in> set communities \<and> truthy p \<and> permission_value p = None \<longrightarrow>
            (\<exists>k' p'. (k', p') \<in> set communities \<and> truthy p' \<and> permission_value p' = None
               \<and> snd (set_community_names u w communities) =
                   Inl (SaltInvocationError
                     (''Invalid permission '' @ quoted (py_str p')
                      @ '' specified. Valid permissions: ''
                      @ ''dict_keys(['None', 'Notify', 'Read Only', 'Read Write', 'Read Create'])''))
               \<and> reg (fst (set_community_names u w communities)) = reg w
               \<and> writes (calls (fst (set_community_names u w communities)))
                   = writes (calls w)))"
proof (intro conjI impI)
  assume a: "\<not> set xs \<subseteq> set get_agent_service_types"
  define bad where
    "bad = hd (filter (\<lambda>x. x \<notin> set get_agent_service_types) (sort (remdups xs)))"
  have "filter (\<lambda>x. x \<notin> set get_agent_service_types) (sort (remdups xs)) \<noteq> []"
    using a by (auto simp add: filter_empty_conv)
  then have "bad \<in> set (filter (\<lambda>x. x \<notin> set get_agent_service_types) (sort (remdups xs)))"
    unfolding bad_def by (rule hd_in_set)
  then have m1: "bad \<in> set xs" and m2: "bad \<notin> set get_agent_service_types"
    by simp_all
  have e: "set_agent_settings u w contact location (Some xs) =
      (w, Inl (SaltInvocationError
           (''Invalid service '' @ quoted bad @ '' specified. Valid services: ''
            @ ''['None', 'Physical', 'Datalink and subnetwork', 'Internet', 'End-to-end', 'Applications']'')))"
    using set_agent_settings_invalid [OF a, of u w contact location]
    unfolding bad_def [symmetric] valid_names_repr .
  show "let bad = hd (filter (\<lambda>x. x \<notin> set get_agent_service_types) (sort (remdups xs)))
             in bad \<in> set xs \<and> bad \<notin> set get_agent_service_types
                \<and> set_agent_settings u w contact location (Some xs) =
                    (w, Inl (SaltInvocationError
                       (''Invalid service '' @ quoted bad @ '' specified. Valid services: ''
                        @ ''['None', 'Physical', 'Datalink and subnetwork', 'Internet', 'End-to-end', 'Applications']'')))"
    unfolding Let_def bad_def [symmetric] using m1 m2 e by (intro conjI)
next
  assume a: "\<not> key_exists u (reg w) HKEY COMMUNITIES_GPO_KEY
          \<and> distinct (map fst communities)
          \<and> (k, p) \<in> set communities \<and> truthy p \<and> permission_value p = None"
  then have "\<exists>k' p'. (k', p') \<in> set communities \<and> truthy p' \<and> permission_value p' = None
           \<and> snd (set_community_names u w communities) =
               Inl (SaltInvocationError
                 (''Invalid permission '' @ quoted (py_str p')
                  @ '' specified. Valid permissions: ''
                  @ ''dict_keys('' @ py_repr_names (map fst PERMISSION_TYPES) @ '')''))
           \<and> reg (fst (set_community_names u w communities)) = reg w
           \<and> writes (calls (fst (set_community_names u w communities))) = writes (calls w)"
    using set_community_names_invalid [of u w communities k p] by blast
  then show "\<exists>k' p'. (k', p') \<in> set communities \<and> truthy p' \<and> permission_value p' = None
               \<and> snd (set_community_names u w communities) =
                   Inl (SaltInvocationError
                     (''Invalid permission '' @ quoted (py_str p')
                      @ '' specified. Valid permissions: ''
                      @ ''dict_keys(['None', 'Notify', 'Read Only', 'Read Write', 'Read Create'])''))
               \<and> reg (fst (set_community_names u w communities)) = reg w
               \<and> writes (calls (fst (set_community_names u w communities)))
                   = writes (calls w)"
    unfolding valid_names_repr by simp
qed

text \<open>
  Claim C5 as stated fails when the Group Policy community key exists: the call
  raises \<^verbatim>\<open>CommandExecutionError\<close> before it looks at the permissions.
\<close>

theorem invalid_permission_counterexample:
  "truthy (PyStr ''Bogus'') \<and> permission_value (PyStr ''Bogus'') = None
   \<and> snd (set_community_names mem_utils (start reg_gpo_empty)
            [(PyStr ''public'', PyStr ''Bogus'')]) =
       Inl (CommandExecutionError ''Communities on this system are managed by Group Policy'')
   \<and> (\<forall>message. snd (set_community_names mem_utils (start reg_gpo_empty)
            [(PyStr ''public'', PyStr ''Bogus'')]) \<noteq> Inl (SaltInvocationError message))"
proof -
  have e1: "key_exists mem_utils (reg (start reg_gpo_empty)) HKEY COMMUNITIES_GPO_KEY"
    by (simp add: reg_gpo_empty_def mem_defs)
  have "permission_value (PyStr ''Bogus'') = None" by (simp add: PERMISSION_TYPES_def)
  then show ?thesis by (simp add: set_community_names_gpo [OF e1])
qed


text \<open>
  The amended claim C5 on the registries in memory, with the service and the
  permission \<^verbatim>\<open>Bogus\<close>, and the messages in full.
\<close>

theorem invalid_names_raise_witness:
  "\<not> set [''Physical'', ''Bogus''] \<subseteq> set get_agent_service_types
   \<and> set_agent_settings mem_utils (start reg_physical) PyNone PyNone
        (Some [''Physical'', ''Bogus'']) =
       (start reg_physical,
        Inl (SaltInvocationError
          ''Invalid service 'Bogus' specified. Valid services: ['None', 'Physical', 'Datalink and subnetwork', 'Internet', 'End-to-end', 'Applications']''))
   \<and> \<not> key_exists mem_utils (reg (start reg_local)) HKEY COMMUNITIES_GPO_KEY
   \<and> distinct (map fst [(PyStr ''a'', PyStr ''Read Only''), (PyStr ''b'', PyStr ''Bogus'')])
   \<and> truthy (PyStr ''Bogus'') \<and> permission_value (PyStr ''Bogus'') = None
   \<and> snd (set_community_names mem_utils (start reg_local)
            [(PyStr ''a'', PyStr ''Read Only''), (PyStr ''b'', PyStr ''Bogus'')]) =
       Inl (SaltInvocationError
          ''Invalid permission 'Bogus' specified. Valid permissions: dict_keys(['None', 'Notify', 'Read Only', 'Read Write', 'Read Create'])'')
   \<and> reg (fst (set_community_names mem_utils (start reg_local)
            [(PyStr ''a'', PyStr ''Read Only''), (PyStr ''b'', PyStr ''Bogus'')])) = reg_local
   \<and> writes (calls (fst (set_community_names mem_utils (start reg_local)
            [(PyStr ''a'', PyStr ''Read Only''), (PyStr ''b'', PyStr ''Bogus'')]))) = []"
proof -
  let ?c = "[(PyStr ''a'', PyStr ''Read Only''), (PyStr ''b'', PyStr ''Bogus'')]"
  have s: "\<not> set [''Physical'', ''Bogus''] \<subseteq> set get_agent_service_types"
    by (simp add: get_agent_service_types_def SERVICE_TYPES_def)
  have h: "hd (filter (\<lambda>x. x \<notin> set get_agent_service_types)
                (sort (remdups [''Physical'', ''Bogus'']))) = ''Bogus''"
    by (simp add: get_agent_service_types_def SERVICE_TYPES_def)
  have l1: "\<not> key_exists mem_utils (reg (start reg_local)) HKEY COMMUNITIES_GPO_KEY"
    by (simp add: reg_local_def mem_defs)
  have d: "distinct (map fst ?c)" by simp
  have b: "truthy (PyStr ''Bogus'')" "permission_value (PyStr ''Bogus'') = None"
    by (simp_all add: PERMISSION_TYPES_def)
  have ro: "permission_value (PyStr ''Read Only'') \<noteq> None"
    by (simp add: PERMISSION_TYPES_def)
  note t = invalid_names_raise [of "[''Physical'', ''Bogus'']" mem_utils "start reg_physical"
      PyNone PyNone ?c "PyStr ''b''" "PyStr ''Bogus''"]
  have a1: "set_agent_settings mem_utils (start reg_physical) PyNone PyNone
        (Some [''Physical'', ''Bogus'']) =
       (start reg_physical,
        Inl (SaltInvocationError
          ''Invalid service 'Bogus' specified. Valid services: ['None', 'Physical', 'Datalink and subnetwork', 'Internet', 'End-to-end', 'Applications']''))"
    using t [THEN conjunct1] s unfolding Let_def h by (simp add: quoted_def)
  note t2 = invalid_names_raise [of "[''Physical'', ''Bogus'']" mem_utils "start reg_local"
      PyNone PyNone ?c "PyStr ''b''" "PyStr ''Bogus''"]
  from t2 [THEN conjunct2] l1 d b
  obtain k' p' where m: "(k', p') \<in> set ?c" and i: "permission_value p' = None"
    and r: "snd (set_community_names mem_utils (start reg_local) ?c) =
                   Inl (SaltInvocationError
                     (''Invalid permission '' @ quoted (py_str p')
                      @ '' specified. Valid permissions: ''
                      @ ''dict_keys(['None', 'Notify', 'Read Only', 'Read Write', 'Read Create'])''))"
         "reg (fst (set_community_names mem_utils (start reg_local) ?c)) = reg (start reg_local)"
         "writes (calls (fst (set_community_names mem_utils (start reg_local) ?c)))
            = writes (calls (start reg_local))"
    by auto
  from m i ro have p': "p' = PyStr ''Bogus''" by auto
  have a2: "snd (set_community_names mem_utils (start reg_local) ?c) =
       Inl (SaltInvocationError
          ''Invalid permission 'Bogus' specified. Valid permissions: dict_keys(['None', 'Notify', 'Read Only', 'Read Write', 'Read Create'])'')"
    using r(1) unfolding p' by (simp add: quoted_def)
  have a3: "reg (fst (set_community_names mem_utils (start reg_local) ?c)) = reg_local"
    "writes (calls (fst (set_community_names mem_utils (start reg_local) ?c))) = []"
    using r(2,3) by (simp_all add: start_def writes_def)
  show ?thesis using s a1 l1 d b a2 a3 by (simp only: simp_thms)
qed

section \<open>Reconciling the community names\<close>

lemma dict_eq_keys:
  assumes "dict_eq a b" and "distinct (map fst a)"
  shows "fst ` set a = fst ` set b"
proof (rule card_seteq)
  show "finite (fst ` set b)" by simp
  show "fst ` set a \<subseteq> fst ` set b"
    using dict_eq_item [OF assms(1)] by force
  have "card (fst ` set b) \<le> length b"
    using card_length [of "map fst b"] by simp
  also have "\<dots> = length a" using assms(1) by (simp add: dict_eq_def)
  also have "\<dots> = card (fst ` set a)"
    using distinct_card [OF assms(2)] by simp
  finally show "card (fst ` set b) \<le> card (fst ` set a)" .
qed

lemma set_community_names_issued:
  fixes u :: "'s utils" and w :: "'s world"
  assumes nogpo: "\<not> key_exists u (reg w) HKEY COMMUNITIES_GPO_KEY"
      and d: "distinct (map fst communities)"
      and valid: "\<forall>(k, p)\<in>set communities. permission_value (normalized p) \<noteq> None"
  defines "current \<equiv> snd (get_community_names u w)"
  defines "r \<equiv> set_community_names u w communities"
  shows "(\<forall>k. k \<in> fst ` set current \<and> k \<notin> fst ` set communities \<longrightarrow>
            Delete_value HKEY COMMUNITIES_KEY k \<in> set (issued w (fst r)))
       \<and> (\<forall>k p v. (k, p) \<in> set communities \<and> k \<notin> fst ` set current
              \<and> permission_value (normalized p) = Some v \<longrightarrow>
            Set_value HKEY COMMUNITIES_KEY k (PyInt v) REG_DWORD \<in> set (issued w (fst r)))"
proof -
  define w1 where "w1 = w\<lparr>calls := calls w @ [Key_exists HKEY COMMUNITIES_GPO_KEY]\<rparr>"
  define w2 where "w2 = fst (get_community_names u w1)"
  have r1: "reg w1 = reg w" by (simp add: w1_def)
  have cur: "snd (get_community_names u w1) = current"
    unfolding current_def using r1 by (rule get_community_names_cong)
  note n = set_community_names_no_gpo [OF nogpo, of communities,
      unfolded w1_def [symmetric] w2_def [symmetric] cur, folded r_def]
  show ?thesis
  proof (cases "dict_eq communities current")
    case True
    from dict_eq_keys [OF True d] have "fst ` set communities = fst ` set current" .
    then show ?thesis by (metis fst_conv image_eqI)
  next
    case False
    have m: "\<And>k p. (k, p) \<in> set communities \<Longrightarrow> map_of communities k = Some p"
      using d by simp
    have a: "\<forall>k\<in>set (map fst communities). \<exists>p v. map_of communities k = Some p
        \<and> permission_value (normalized p) = Some v"
    proof
      fix k assume "k \<in> set (map fst communities)"
      then obtain p where kp: "(k, p) \<in> set communities" by auto
      then have "permission_value (normalized p) \<noteq> None" using valid by auto
      then show "\<exists>p v. map_of communities k = Some p
        \<and> permission_value (normalized p) = Some v" using m [OF kp] by auto
    qed
    from values_loop_ok [OF d a, of "[]"]
    obtain comm' vals where vl: "values_loop (map fst communities) communities []
        = Inr (comm', vals)"
      and vv: "\<forall>k. map_of vals k =
                 (if k \<in> set (map fst communities)
                  then map_option PyInt
                         (Option.bind (map_of communities k)
                            (\<lambda>p. permission_value (normalized p)))
                  else map_of [] k)"
      by blast
    define w3 where "w3 = check_current u current vals w2"
    define w4 where "w4 = create_new u vals current w3"
    define w5 where "w5 = fst (get_community_names u w4)"
    have f: "fst r = w5"
      unfolding n using False vl
      by (simp add: Let_def w3_def w4_def w5_def split: sum.splits)
    obtain cs0 where c0: "calls w2 = calls w1 @ cs0"
      unfolding w2_def using get_community_names_calls by blast
    obtain cs1 where c1: "calls w3 = calls w2 @ cs1"
      and del: "\<forall>(k, p)\<in>set current. map_of vals k = None \<longrightarrow>
           Delete_value HKEY COMMUNITIES_KEY k \<in> set cs1"
      unfolding w3_def using check_current_calls [of u current vals w2] by blast
    obtain cs2 where c2: "calls w4 = calls w3 @ cs2"
      and cre: "\<forall>(k, v)\<in>set vals. map_of current k = None \<longrightarrow>
           Set_value HKEY COMMUNITIES_KEY k v REG_DWORD \<in> set cs2"
      unfolding w4_def using create_new_calls [of u vals current w3] by blast
    obtain cs3 where c3: "calls w5 = calls w4 @ cs3"
      unfolding w5_def using get_community_names_calls by blast
    have i: "issued w (fst r) = Key_exists HKEY COMMUNITIES_GPO_KEY # cs0 @ cs1 @ cs2 @ cs3"
      unfolding f issued_def c3 c2 c1 c0 by (simp add: w1_def)
    have "Delete_value HKEY COMMUNITIES_KEY k \<in> set (issued w (fst r))"
      if "k \<in> fst ` set current \<and> k \<notin> fst ` set communities" for k
    proof -
      from that obtain p where "(k, p) \<in> set current" by auto
      moreover have "map_of vals k = None" using that vv by simp
      ultimately have "Delete_value HKEY COMMUNITIES_KEY k \<in> set cs1" using del by auto
      then show ?thesis by (simp add: i)
    qed
    moreover have "Set_value HKEY COMMUNITIES_KEY k (PyInt v) REG_DWORD
        \<in> set (issued w (fst r))"
      if "(k, p) \<in> set communities \<and> k \<notin> fst ` set current
              \<and> permission_value (normalized p) = Some v" for k p v
    proof -
      from that have "map_of communities k = Some p" using m by simp
      moreover have "k \<in> set (map fst communities)" using that by force
      ultimately have "map_of vals k = Some (PyInt v)" using vv that by simp
      then have "(k, PyInt v) \<in> set vals" by (rule map_of_SomeD)
      moreover have "map_of current k = None"
        using that by (simp add: map_of_eq_None_iff)
      ultimately have "Set_value HKEY COMMUNITIES_KEY k (PyInt v) REG_DWORD \<in> set cs2"
        using cre by auto
      then show ?thesis by (simp add: i)
    qed
    ultimately show ?thesis by blast
  qed
qed


lemma mem_key_exists_set:
  "key_exists mem_utils (set_value mem_utils s hive key vname vdata ty) hive' key' \<longleftrightarrow>
     (hive', key') = (hive, key) \<or> key_exists mem_utils s hive' key'"
  by (auto simp add: mem_utils_def update_conv')

lemma mem_key_exists_delete:
  "key_exists mem_utils (delete_value mem_utils s hive key vname) hive' key' \<longleftrightarrow>
     key_exists mem_utils s hive' key'"
  by (auto simp add: mem_utils_def update_conv')

lemma mem_values_set:
  "mem_values (set_value mem_utils s hive key vname vdata ty) hive' key' =
     (if (hive', key') = (hive, key) then AList.update vname vdata (mem_values s hive key)
      else mem_values s hive' key')"
  by (auto simp add: mem_utils_def mem_values_def update_conv')

lemma mem_values_delete:
  "mem_values (delete_value mem_utils s hive key vname) hive' key' =
     (if (hive', key') = (hive, key) then AList.delete vname (mem_values s hive key)
      else mem_values s hive' key')"
  by (auto simp add: mem_utils_def mem_values_def update_conv' split: option.splits)

lemma entries_of_map_Entry: "entries_of (map (\<lambda>(vname, vdata). Entry vname vdata) t) = t"
  by (induction t) auto

lemma mem_list_values:
  "list_values mem_utils s hive key =
     Values (map (\<lambda>(vname, vdata). Entry vname vdata) (mem_values s hive key))"
  by (simp add: mem_utils_def)

lemma mem_check_current:
  assumes "\<forall>(k, p)\<in>set cur. \<forall>v. map_of vals k = Some v \<longrightarrow> p \<noteq> v"
      and "distinct (map fst (mem_values (reg w) HKEY COMMUNITIES_KEY))"
  shows "(\<forall>k. map_of (mem_values (reg (check_current mem_utils cur vals w)) HKEY COMMUNITIES_KEY) k
            = (if k \<in> fst ` set cur then map_of vals k
               else map_of (mem_values (reg w) HKEY COMMUNITIES_KEY) k))
       \<and> distinct (map fst (mem_values (reg (check_current mem_utils cur vals w))
                     HKEY COMMUNITIES_KEY))
       \<and> (key_exists mem_utils (reg (check_current mem_utils cur vals w)) HKEY
            COMMUNITIES_GPO_KEY
          \<longleftrightarrow> key_exists mem_utils (reg w) HKEY COMMUNITIES_GPO_KEY)"
  using assms
proof (induction cur arbitrary: w)
  case Nil
  then show ?case by simp
next
  case (Cons c cur)
  obtain k0 p0 where c: "c = (k0, p0)" by (cases c)
  have rest: "\<forall>(k, p)\<in>set cur. \<forall>v. map_of vals k = Some v \<longrightarrow> p \<noteq> v"
    using Cons.prems(1) by simp
  show ?case
  proof (cases "map_of vals k0")
    case None
    define w' where "w' = reg_delete_value mem_utils w HKEY COMMUNITIES_KEY k0"
    have t: "mem_values (reg w') HKEY COMMUNITIES_KEY
        = AList.delete k0 (mem_values (reg w) HKEY COMMUNITIES_KEY)"
      by (simp add: w'_def reg_delete_value_def mem_values_delete)
    have d: "distinct (map fst (mem_values (reg w') HKEY COMMUNITIES_KEY))"
      using Cons.prems(2) by (simp add: t distinct_delete)
    have g: "key_exists mem_utils (reg w') HKEY COMMUNITIES_GPO_KEY
        \<longleftrightarrow> key_exists mem_utils (reg w) HKEY COMMUNITIES_GPO_KEY"
      by (simp add: w'_def reg_delete_value_def mem_key_exists_delete)
    have e: "check_current mem_utils (c # cur) vals w = check_current mem_utils cur vals w'"
      using None by (simp add: c w'_def)
    from Cons.IH [OF rest d] show ?thesis
      unfolding e using None g by (auto simp add: t delete_conv' c)
  next
    case (Some v)
    then have ne: "p0 \<noteq> v" using Cons.prems(1) by (simp add: c)
    define w' where "w' = reg_set_value mem_utils w HKEY COMMUNITIES_KEY k0 v REG_DWORD"
    have t: "mem_values (reg w') HKEY COMMUNITIES_KEY
        = AList.update k0 v (mem_values (reg w) HKEY COMMUNITIES_KEY)"
      by (simp add: w'_def reg_set_value_def mem_values_set)
    have d: "distinct (map fst (mem_values (reg w') HKEY COMMUNITIES_KEY))"
      using Cons.prems(2) by (simp add: t distinct_update)
    have g: "key_exists mem_utils (reg w') HKEY COMMUNITIES_GPO_KEY
        \<longleftrightarrow> key_exists mem_utils (reg w) HKEY COMMUNITIES_GPO_KEY"
      using keys_differ by (simp add: w'_def reg_set_value_def mem_key_exists_set)
    have e: "check_current mem_utils (c # cur) vals w = check_current mem_utils cur vals w'"
      using Some ne by (simp add: c w'_def)
    from Cons.IH [OF rest d] show ?thesis
      unfolding e using Some g by (auto simp add: t update_conv' c)
  qed
qed

lemma mem_create_new:
  assumes "distinct (map fst vals)"
      and "distinct (map fst (mem_values (reg w) HKEY COMMUNITIES_KEY))"
  shows "(\<forall>k. map_of (mem_values (reg (create_new mem_utils vals cur w)) HKEY COMMUNITIES_KEY) k
            = (if k \<in> fst ` set vals \<and> map_of cur k = None then map_of vals k
               else map_of (mem_values (reg w) HKEY COMMUNITIES_KEY) k))
       \<and> distinct (map fst (mem_values (reg (create_new mem_utils vals cur w))
                     HKEY COMMUNITIES_KEY))
       \<and> (key_exists mem_utils (reg (create_new mem_utils vals cur w)) HKEY
            COMMUNITIES_GPO_KEY
          \<longleftrightarrow> key_exists mem_utils (reg w) HKEY COMMUNITIES_GPO_KEY)"
  using assms
proof (induction vals arbitrary: w)
  case Nil
  then show ?case by simp
next
  case (Cons c vals)
  obtain k0 v0 where c: "c = (k0, v0)" by (cases c)
  have dv: "distinct (map fst vals)" and nk: "k0 \<notin> fst ` set vals"
    using Cons.prems(1) by (simp_all add: c)
  show ?case
  proof (cases "map_of cur k0")
    case None
    define w' where "w' = reg_set_value mem_utils w HKEY COMMUNITIES_KEY k0 v0 REG_DWORD"
    have t: "mem_values (reg w') HKEY COMMUNITIES_KEY
        = AList.update k0 v0 (mem_values (reg w) HKEY COMMUNITIES_KEY)"
      by (simp add: w'_def reg_set_value_def mem_values_set)
    have d: "distinct (map fst (mem_values (reg w') HKEY COMMUNITIES_KEY))"
      using Cons.prems(2) by (simp add: t distinct_update)
    have g: "key_exists mem_utils (reg w') HKEY COMMUNITIES_GPO_KEY
        \<longleftrightarrow> key_exists mem_utils (reg w) HKEY COMMUNITIES_GPO_KEY"
      using keys_differ by (simp add: w'_def reg_set_value_def mem_key_exists_set)
    have e: "create_new mem_utils (c # vals) cur w = create_new mem_utils vals cur w'"
      using None by (simp add: c w'_def)
    from Cons.IH [OF dv d] show ?thesis
      unfolding e using None g nk by (auto simp add: t update_conv' c)
  next
    case (Some q)
    have e: "create_new mem_utils (c # vals) cur w = create_new mem_utils vals cur w"
      using Some by (simp add: c)
    from Cons.IH [OF dv Cons.prems(2)] show ?thesis
      unfolding e using Some nk by (auto simp add: c)
  qed
qed


lemma values_loop_distinct:
  "values_loop ks comm vals = Inr (comm', vals') \<Longrightarrow> distinct (map fst vals) \<Longrightarrow>
   distinct (map fst vals')"
proof (induction ks arbitrary: comm vals)
  case Nil
  then show ?case by simp
next
  case (Cons k ks)
  then show ?case
    by (auto simp add: Let_def distinct_update split: option.splits if_splits)
qed

lemma map_of_rev_distinct: "distinct (map fst xs) \<Longrightarrow> map_of (rev xs) = map_of xs"
  using map_of_inject_set [of "rev xs" xs] by (simp add: rev_map [symmetric])

lemma mem_current:
  assumes "\<not> key_exists mem_utils (reg w) HKEY COMMUNITIES_GPO_KEY"
      and "distinct (map fst (mem_values (reg w) HKEY COMMUNITIES_KEY))"
  defines "current \<equiv> snd (get_community_names mem_utils w)"
  shows "\<forall>k. map_of current k =
           map_option (\<lambda>vdata. PyStr (first_permission vdata))
             (map_of (mem_values (reg w) HKEY COMMUNITIES_KEY) k)"
    and "fst ` set current = fst ` set (mem_values (reg w) HKEY COMMUNITIES_KEY)"
    and "distinct (map fst current)"
proof -
  have c: "current = local_loop (map (\<lambda>(vname, vdata). Entry vname vdata)
      (mem_values (reg w) HKEY COMMUNITIES_KEY)) []"
    unfolding current_def
    by (simp add: get_community_names_no_gpo [OF assms(1)] mem_list_values)
  show "\<forall>k. map_of current k =
           map_option (\<lambda>vdata. PyStr (first_permission vdata))
             (map_of (mem_values (reg w) HKEY COMMUNITIES_KEY) k)"
    using assms(2)
    by (auto simp add: c local_loop_map_of entries_of_map_Entry map_of_rev_distinct
          split: option.splits)
  show "fst ` set current = fst ` set (mem_values (reg w) HKEY COMMUNITIES_KEY)"
    by (simp add: c local_loop_keys entries_of_map_Entry)
  show "distinct (map fst current)"
    by (simp add: c local_loop_distinct)
qed

lemma first_permission_roundtrip:
  "permission_value q = Some v \<Longrightarrow> PyStr (first_permission (PyInt v)) = q"
  by (cases q) (auto simp add: first_permission_def PERMISSION_TYPES_def split: if_splits)

lemma failed_requested_none:
  "\<forall>(k, p)\<in>set xs. map_of new k = Some p \<Longrightarrow> failed_requested xs new = Inr []"
  by (induction xs) auto

lemma failed_new_none:
  "\<forall>(k, p)\<in>set new. map_of comm k \<noteq> None \<Longrightarrow> failed_new new comm = []"
  by (induction new) auto

lemma mem_set_community_names:
  assumes nogpo: "\<not> key_exists mem_utils (reg w) HKEY COMMUNITIES_GPO_KEY"
      and dt: "distinct (map fst (mem_values (reg w) HKEY COMMUNITIES_KEY))"
      and d: "distinct (map fst communities)"
      and valid: "\<forall>(k, p)\<in>set communities. permission_value (normalized p) \<noteq> None"
  defines "r \<equiv> set_community_names mem_utils w communities"
  shows "snd r = Inr True
       \<and> (\<forall>k. map_of (snd (get_community_names mem_utils (fst r))) k =
             (if dict_eq communities (snd (get_community_names mem_utils w))
              then map_of communities k
              else map_option normalized (map_of communities k)))
       \<and> \<not> key_exists mem_utils (reg (fst r)) HKEY COMMUNITIES_GPO_KEY
       \<and> distinct (map fst (mem_values (reg (fst r)) HKEY COMMUNITIES_KEY))
       \<and> (\<not> dict_eq communities (snd (get_community_names mem_utils w)) \<longrightarrow>
            (\<forall>k. map_of (mem_values (reg (fst r)) HKEY COMMUNITIES_KEY) k =
                   map_option PyInt
                     (Option.bind (map_of communities k)
                        (\<lambda>p. permission_value (normalized p)))))"
proof -
  define current where "current = snd (get_community_names mem_utils w)"
  define w1 where "w1 = w\<lparr>calls := calls w @ [Key_exists HKEY COMMUNITIES_GPO_KEY]\<rparr>"
  define w2 where "w2 = fst (get_community_names mem_utils w1)"
  have r1: "reg w1 = reg w" by (simp add: w1_def)
  have r2: "reg w2 = reg w" by (simp add: w2_def get_community_names_reg r1)
  have cur: "snd (get_community_names mem_utils w1) = current"
    unfolding current_def using r1 by (rule get_community_names_cong)
  note n = set_community_names_no_gpo [OF nogpo, of communities,
      unfolded w1_def [symmetric] w2_def [symmetric] cur, folded r_def]
  note mc = mem_current [OF nogpo dt, folded current_def]
  have m: "\<And>k p. (k, p) \<in> set communities \<Longrightarrow> map_of communities k = Some p"
    using d by simp
  show ?thesis
  proof (cases "dict_eq communities current")
    case True
    have e: "r = (w2, Inr True)" unfolding n using True by simp
    have k: "fst ` set communities = fst ` set current" using True d by (rule dict_eq_keys)
    have "map_of current k' = map_of communities k'" for k'
    proof (cases "map_of communities k'")
      case None
      then have "k' \<notin> fst ` set current" using k by (simp add: map_of_eq_None_iff)
      then have "map_of current k' = None" by (simp add: map_of_eq_None_iff)
      then show ?thesis using None by simp
    next
      case (Some p)
      then have "(k', p) \<in> set communities" by (rule map_of_SomeD)
      then have "(k', p) \<in> set current" using True dict_eq_item by blast
      then show ?thesis using Some mc(3) by simp
    qed
    moreover have "snd (get_community_names mem_utils w2) = current"
      unfolding current_def using r2 by (rule get_community_names_cong)
    ultimately show ?thesis
      using True nogpo dt by (simp add: e r2 current_def)
  next
    case False
    have a: "\<forall>k\<in>set (map fst communities). \<exists>p v. map_of communities k = Some p
        \<and> permission_value (normalized p) = Some v"
    proof
      fix k assume "k \<in> set (map fst communities)"
      then obtain p where kp: "(k, p) \<in> set communities" by auto
      then have "permission_value (normalized p) \<noteq> None" using valid by auto
      then show "\<exists>p v. map_of communities k = Some p
        \<and> permission_value (normalized p) = Some v" using m [OF kp] by auto
    qed
    from values_loop_ok [OF d a, of "[]"]
    obtain comm' vals where vl: "values_loop (map fst communities) communities []
        = Inr (comm', vals)"
      and vv: "\<forall>k. map_of vals k =
                 (if k \<in> set (map fst communities)
                  then map_option PyInt
                         (Option.bind (map_of communities k)
                            (\<lambda>p. permission_value (normalized p)))
                  else map_of [] k)"
      and vc: "\<forall>k. map_of comm' k =
                 (if k \<in> set (map fst communities)
                  then map_option normalized (map_of communities k)
                  else map_of communities k)"
      and vk: "map fst comm' = map fst communities"
      by blast
    have vv': "map_of vals k = map_option PyInt
                 (Option.bind (map_of communities k) (\<lambda>p. permission_value (normalized p)))"
      for k
    proof (cases "k \<in> set (map fst communities)")
      case True
      then show ?thesis using vv by simp
    next
      case False
      then have "map_of communities k = None" by (simp add: map_of_eq_None_iff)
      then show ?thesis using vv False by simp
    qed
    have vc': "map_of comm' k = map_option normalized (map_of communities k)" for k
    proof (cases "k \<in> set (map fst communities)")
      case True
      then show ?thesis using vc by simp
    next
      case False
      then have "map_of communities k = None" by (simp add: map_of_eq_None_iff)
      then show ?thesis using vc False by simp
    qed
    have dv: "distinct (map fst vals)"
      using values_loop_distinct [OF vl] by simp
    define w3 where "w3 = check_current mem_utils current vals w2"
    define w4 where "w4 = create_new mem_utils vals current w3"
    define w5 where "w5 = fst (get_community_names mem_utils w4)"
    define new where "new = snd (get_community_names mem_utils w4)"
    have differ: "\<forall>(k, p)\<in>set current. \<forall>v. map_of vals k = Some v \<longrightarrow> p \<noteq> v"
    proof (clarify)
      fix k p
      assume kp: "(k, p) \<in> set current" and v: "map_of vals k = Some p"
      from kp mc(3) have "map_of current k = Some p" by simp
      then obtain x where "p = PyStr x" using mc(1) by auto
      moreover obtain y where "p = PyInt y" using v vv' [of k] by auto
      ultimately show False by simp
    qed
    have dt2: "distinct (map fst (mem_values (reg w2) HKEY COMMUNITIES_KEY))"
      using dt r2 by simp
    note c3 = mem_check_current [OF differ dt2, folded w3_def]
    have t3: "map_of (mem_values (reg w3) HKEY COMMUNITIES_KEY) k
            = (if k \<in> fst ` set current then map_of vals k
               else map_of (mem_values (reg w2) HKEY COMMUNITIES_KEY) k)" for k
      using c3 by blast
    have dt3: "distinct (map fst (mem_values (reg w3) HKEY COMMUNITIES_KEY))"
      using c3 by blast
    have g3: "\<not> key_exists mem_utils (reg w3) HKEY COMMUNITIES_GPO_KEY"
      using c3 nogpo r2 by simp
    note c4 = mem_create_new [OF dv dt3, of current, folded w4_def]
    have t4: "map_of (mem_values (reg w4) HKEY COMMUNITIES_KEY) k
            = (if k \<in> fst ` set vals \<and> map_of current k = None then map_of vals k
               else map_of (mem_values (reg w3) HKEY COMMUNITIES_KEY) k)" for k
      using c4 by blast
    have dt4: "distinct (map fst (mem_values (reg w4) HKEY COMMUNITIES_KEY))"
      using c4 by blast
    have g4: "\<not> key_exists mem_utils (reg w4) HKEY COMMUNITIES_GPO_KEY"
      using c4 g3 by simp
    have table: "map_of (mem_values (reg w4) HKEY COMMUNITIES_KEY) k = map_of vals k" for k
    proof (cases "k \<in> fst ` set current")
      case True
      then have "map_of current k \<noteq> None" by (simp add: map_of_eq_None_iff)
      then show ?thesis using True by (simp add: t4 t3)
    next
      case False
      then have c: "map_of current k = None" by (simp add: map_of_eq_None_iff)
      from False have "k \<notin> fst ` set (mem_values (reg w) HKEY COMMUNITIES_KEY)"
        using mc(2) by simp
      then have o: "map_of (mem_values (reg w2) HKEY COMMUNITIES_KEY) k = None"
        by (simp add: r2 map_of_eq_None_iff)
      show ?thesis
      proof (cases "k \<in> fst ` set vals")
        case True
        then show ?thesis using c by (simp add: t4)
      next
        case nv: False
        then have "map_of vals k = None" by (simp add: map_of_eq_None_iff)
        then show ?thesis using nv False o by (simp add: t4 t3)
      qed
    qed
    note mn = mem_current [OF g4 dt4, folded new_def]
    have newmap: "map_of new k = map_of comm' k" for k
    proof (cases "map_of communities k")
      case None
      then show ?thesis using mn(1) by (simp add: table vv' vc')
    next
      case (Some p)
      then have "(k, p) \<in> set communities" by (rule map_of_SomeD)
      then have "permission_value (normalized p) \<noteq> None" using valid by auto
      then obtain v where v: "permission_value (normalized p) = Some v" by auto
      from first_permission_roundtrip [OF v] show ?thesis
        using mn(1) Some v by (simp add: table vv' vc')
    qed
    have dc: "distinct (map fst comm')" using vk d by simp
    have "\<forall>(k, p)\<in>set comm'. map_of new k = Some p"
      using dc by (auto simp add: newmap)
    then have fr: "failed_requested comm' new = Inr []" by (rule failed_requested_none)
    have nn: "map_of comm' k \<noteq> None" if "(k, p) \<in> set new" for k p
    proof -
      from that have "k \<in> fst ` set new" by force
      then have "map_of new k \<noteq> None" by (simp add: map_of_eq_None_iff)
      then show ?thesis by (simp add: newmap)
    qed
    have "\<forall>(k, p)\<in>set new. map_of comm' k \<noteq> None" using nn by blast
    then have fn: "failed_new new comm' = []" by (rule failed_new_none)
    have e: "r = (w5, Inr True)"
      unfolding n using False vl fr fn
      by (simp add: Let_def w3_def [symmetric] w4_def [symmetric] w5_def [symmetric]
            new_def [symmetric])
    have r5: "reg w5 = reg w4" by (simp add: w5_def get_community_names_reg)
    have "snd (get_community_names mem_utils w5) = new"
      unfolding new_def using r5 by (rule get_community_names_cong)
    then have "\<forall>k. map_of (snd (get_community_names mem_utils (fst r))) k =
        map_option normalized (map_of communities k)"
      by (simp add: e newmap vc')
    moreover have "\<forall>k. map_of (mem_values (reg (fst r)) HKEY COMMUNITIES_KEY) k =
                   map_option PyInt
                     (Option.bind (map_of communities k)
                        (\<lambda>p. permission_value (normalized p)))"
      by (simp add: e r5 table vv')
    ultimately show ?thesis
      using False g4 dt4 by (simp add: e r5 current_def)
  qed
qed


lemma distinct_singleton_set: "distinct xs \<Longrightarrow> set xs = {x} \<Longrightarrow> xs = [x]"
  by (cases xs) (auto simp add: insert_eq_iff dest: subset_singletonD)

lemma dict_of_singleton:
  assumes "distinct (map fst xs)" and "\<forall>k. map_of xs k = map_of [(a, b)] k"
  shows "xs = [(a, b)]"
proof -
  have "map_of xs = map_of [(a, b)]" using assms(2) by (simp add: fun_eq_iff)
  then have "set xs = set [(a, b)]"
    using map_of_inject_set [of xs "[(a, b)]"] assms(1) by simp
  moreover have "distinct xs" using assms(1) by (rule distinct_map [THEN iffD1, THEN conjunct1])
  ultimately show ?thesis using distinct_singleton_set by simp
qed

text \<open>
  Claim C2. Let no Group Policy community key exist and let the requested mapping
  have, after a falsy permission is taken as \<^verbatim>\<open>"None"\<close>, permission types only. For
  every registry interface, \<^verbatim>\<open>set_community_names\<close> issues a delete for every
  community that is current and not requested, and a write of the permission's
  integer, of type \<^verbatim>\<open>REG_DWORD\<close>, for every community that is requested and not
  current. On the registry in memory (any one without the Group Policy key, its
  communities named once each) the call returns \<^verbatim>\<open>True\<close> and the communities read
  afterwards are the requested ones with their permissions. In particular, from any
  such registry, the call with \<^verbatim>\<open>{"a": "Read Only", "b": "Notify"}\<close> and then the
  call with \<^verbatim>\<open>{"a": "Read Only"}\<close> both return \<^verbatim>\<open>True\<close>; the second one issues the
  delete of \<^verbatim>\<open>b\<close>, and what is stored and read at the end is \<^verbatim>\<open>a\<close> alone, with the
  integer \<open>4\<close>, read as \<^verbatim>\<open>Read Only\<close>.
\<close>

theorem set_community_names_reconciles:
  fixes u :: "'s utils" and w :: "'s world" and s :: mem_reg and communities :: pydict
  defines "current \<equiv> snd (get_community_names u w)"
  defines "r \<equiv> set_community_names u w communities"
  defines "m \<equiv> set_community_names mem_utils (start s) communities"
  defines "r1 \<equiv> set_community_names mem_utils (start s)
                   [(PyStr ''a'', PyStr ''Read Only''), (PyStr ''b'', PyStr ''Notify'')]"
  defines "r2 \<equiv> set_community_names mem_utils (fst r1) [(PyStr ''a'', PyStr ''Read Only'')]"
  shows "(\<not> key_exists u (reg w) HKEY COMMUNITIES_GPO_KEY
          \<and> distinct (map fst communities)
          \<and> (\<forall>(k, p)\<in>set communities. permission_value (normalized p) \<noteq> None) \<longrightarrow>
            (\<forall>k. k \<in> fst ` set current \<and> k \<notin> fst ` set communities \<longrightarrow>
                Delete_value HKEY COMMUNITIES_KEY k \<in> set (issued w (fst r)))
          \<and> (\<forall>k p v. (k, p) \<in> set communities \<and> k \<notin> fst ` set current
                  \<and> permission_value (normalized p) = Some v \<longrightarrow>
                Set_value HKEY COMMUNITIES_KEY k (PyInt v) REG_DWORD
                  \<in> set (issued w (fst r))))
       \<and> (\<not> key_exists mem_utils s HKEY COMMUNITIES_GPO_KEY
          \<and> distinct (map fst (mem_values s HKEY COMMUNITIES_KEY))
          \<and> distinct (map fst communities)
          \<and> (\<forall>(k, p)\<in>set communities. permission_value (normalized p) \<noteq> None) \<longrightarrow>
            snd m = Inr True
          \<and> (\<forall>k. map_of (snd (get_community_names mem_utils (fst m))) k =
                 (if dict_eq communities (snd (get_community_names mem_utils (start s)))
                  then map_of communities k
                  else map_option normalized (map_of communities k))))
       \<and> (\<not> key_exists mem_utils s HKEY COMMUNITIES_GPO_KEY
          \<and> distinct (map fst (mem_values s HKEY COMMUNITIES_KEY)) \<longrightarrow>
            snd r1 = Inr True \<and> snd r2 = Inr True
          \<and> snd (get_community_names mem_utils (fst r2)) = [(PyStr ''a'', PyStr ''Read Only'')]
          \<and> mem_values (reg (fst r2)) HKEY COMMUNITIES_KEY = [(PyStr ''a'', PyInt 4)]
          \<and> Delete_value HKEY COMMUNITIES_KEY (PyStr ''b'') \<in> set (issued (fst r1) (fst r2)))"
proof (intro conjI impI)
  assume a: "\<not> key_exists u (reg w) HKEY COMMUNITIES_GPO_KEY
          \<and> distinct (map fst communities)
          \<and> (\<forall>(k, p)\<in>set communities. permission_value (normalized p) \<noteq> None)"
  then have n: "\<not> key_exists u (reg w) HKEY COMMUNITIES_GPO_KEY"
    and d: "distinct (map fst communities)"
    and v: "\<forall>(k, p)\<in>set communities. permission_value (normalized p) \<noteq> None"
    by simp_all
  from set_community_names_issued [OF n d v]
  show "\<forall>k. k \<in> fst ` set current \<and> k \<notin> fst ` set communities \<longrightarrow>
                Delete_value HKEY COMMUNITIES_KEY k \<in> set (issued w (fst r))"
    and "\<forall>k p v. (k, p) \<in> set communities \<and> k \<notin> fst ` set current
                  \<and> permission_value (normalized p) = Some v \<longrightarrow>
                Set_value HKEY COMMUNITIES_KEY k (PyInt v) REG_DWORD
                  \<in> set (issued w (fst r))"
    unfolding current_def r_def by blast+
next
  assume a: "\<not> key_exists mem_utils s HKEY COMMUNITIES_GPO_KEY
          \<and> distinct (map fst (mem_values s HKEY COMMUNITIES_KEY))
          \<and> distinct (map fst communities)
          \<and> (\<forall>(k, p)\<in>set communities. permission_value (normalized p) \<noteq> None)"
  then have n: "\<not> key_exists mem_utils (reg (start s)) HKEY COMMUNITIES_GPO_KEY"
    and dt: "distinct (map fst (mem_values (reg (start s)) HKEY COMMUNITIES_KEY))"
    and d: "distinct (map fst communities)"
    and v: "\<forall>(k, p)\<in>set communities. permission_value (normalized p) \<noteq> None"
    by (simp_all add: start_def)
  from mem_set_community_names [OF n dt d v]
  show "snd m = Inr True"
    and "\<forall>k. map_of (snd (get_community_names mem_utils (fst m))) k =
                 (if dict_eq communities (snd (get_community_names mem_utils (start s)))
                  then map_of communities k
                  else map_option normalized (map_of communities k))"
    unfolding m_def by blast+
next
  assume a: "\<not> key_exists mem_utils s HKEY COMMUNITIES_GPO_KEY
          \<and> distinct (map fst (mem_values s HKEY COMMUNITIES_KEY))"
  let ?c1 = "[(PyStr ''a'', PyStr ''Read Only''), (PyStr ''b'', PyStr ''Notify'')]"
  let ?c2 = "[(PyStr ''a'', PyStr ''Read Only'')]"
  have n: "\<not> key_exists mem_utils (reg (start s)) HKEY COMMUNITIES_GPO_KEY"
    and dt: "distinct (map fst (mem_values (reg (start s)) HKEY COMMUNITIES_KEY))"
    using a by (simp_all add: start_def)
  have pv: "permission_value (PyStr ''Read Only'') = Some 4"
    "permission_value (PyStr ''Notify'') = Some 2"
    by (simp_all add: PERMISSION_TYPES_def)
  have nz: "normalized (PyStr ''Read Only'') = PyStr ''Read Only''"
    "normalized (PyStr ''Notify'') = PyStr ''Notify''"
    by (simp_all add: normalized_def)
  have d1: "distinct (map fst ?c1)" by simp
  have v1: "\<forall>(k, p)\<in>set ?c1. permission_value (normalized p) \<noteq> None"
    using pv by (simp add: nz)
  note f = mem_set_community_names [OF n dt d1 v1, folded r1_def]
  from f have t1: "snd r1 = Inr True"
    and n1: "\<not> key_exists mem_utils (reg (fst r1)) HKEY COMMUNITIES_GPO_KEY"
    and dt1: "distinct (map fst (mem_values (reg (fst r1)) HKEY COMMUNITIES_KEY))"
    by blast+
  from f have "\<forall>k. map_of (snd (get_community_names mem_utils (fst r1))) k =
             (if dict_eq ?c1 (snd (get_community_names mem_utils (start s)))
              then map_of ?c1 k
              else map_option normalized (map_of ?c1 k))"
    by blast
  then have m1: "map_of (snd (get_community_names mem_utils (fst r1))) k = map_of ?c1 k" for k
    by (simp add: nz)
  have d2: "distinct (map fst ?c2)" by simp
  have v2: "\<forall>(k, p)\<in>set ?c2. permission_value (normalized p) \<noteq> None"
    using pv by (simp add: nz)
  note g = mem_set_community_names [OF n1 dt1 d2 v2, folded r2_def]
  from g have t2: "snd r2 = Inr True"
    and n2: "\<not> key_exists mem_utils (reg (fst r2)) HKEY COMMUNITIES_GPO_KEY"
    and dt2: "distinct (map fst (mem_values (reg (fst r2)) HKEY COMMUNITIES_KEY))"
    by blast+
  from g have "\<forall>k. map_of (snd (get_community_names mem_utils (fst r2))) k =
             (if dict_eq ?c2 (snd (get_community_names mem_utils (fst r1)))
              then map_of ?c2 k
              else map_option normalized (map_of ?c2 k))"
    by blast
  then have m2: "\<forall>k. map_of (snd (get_community_names mem_utils (fst r2))) k = map_of ?c2 k"
    by (simp add: nz)
  have "distinct (map fst (snd (get_community_names mem_utils (fst r2))))"
    using mem_current(3) [OF n2 dt2] .
  then have read: "snd (get_community_names mem_utils (fst r2)) = ?c2"
    using m2 by (rule dict_of_singleton)
  have b1: "PyStr ''b'' \<in> fst ` set (snd (get_community_names mem_utils (fst r1)))"
  proof -
    have "map_of (snd (get_community_names mem_utils (fst r1))) (PyStr ''b'') \<noteq> None"
      by (simp add: m1)
    then show ?thesis by (simp add: map_of_eq_None_iff)
  qed
  have b2: "PyStr ''b'' \<notin> fst ` set ?c2" by simp
  have ne: "\<not> dict_eq ?c2 (snd (get_community_names mem_utils (fst r1)))"
  proof
    assume "dict_eq ?c2 (snd (get_community_names mem_utils (fst r1)))"
    from dict_eq_keys [OF this d2] b1 b2 show False by simp
  qed
  from g ne have "\<forall>k. map_of (mem_values (reg (fst r2)) HKEY COMMUNITIES_KEY) k =
                   map_option PyInt
                     (Option.bind (map_of ?c2 k) (\<lambda>p. permission_value (normalized p)))"
    by blast
  then have "\<forall>k. map_of (mem_values (reg (fst r2)) HKEY COMMUNITIES_KEY) k
      = map_of [(PyStr ''a'', PyInt 4)] k"
    using pv by (simp add: nz)
  with dt2 have tab: "mem_values (reg (fst r2)) HKEY COMMUNITIES_KEY = [(PyStr ''a'', PyInt 4)]"
    by (rule dict_of_singleton)
  from set_community_names_issued [OF n1 d2 v2] b1 b2
  have del: "Delete_value HKEY COMMUNITIES_KEY (PyStr ''b'') \<in> set (issued (fst r1) (fst r2))"
    unfolding r2_def by blast
  show "snd r1 = Inr True" by (rule t1)
  show "snd r2 = Inr True" by (rule t2)
  show "snd (get_community_names mem_utils (fst r2)) = ?c2" by (rule read)
  show "mem_values (reg (fst r2)) HKEY COMMUNITIES_KEY = [(PyStr ''a'', PyInt 4)]" by (rule tab)
  show "Delete_value HKEY COMMUNITIES_KEY (PyStr ''b'') \<in> set (issued (fst r1) (fst r2))"
    by (rule del)
qed


lemma mem_local_current:
  "snd (get_community_names mem_utils (start reg_local)) = [(PyStr ''a'', PyStr ''Read Only'')]"
  by (simp add: get_community_names_def reg_key_exists_def reg_list_values_def
        PERMISSION_TYPES_def reg_local_def mem_defs)

text \<open>
  Claim C2 on the registry in memory that stores \<^verbatim>\<open>a\<close> as Read Only: requesting
  \<^verbatim>\<open>b\<close> with an empty permission deletes \<^verbatim>\<open>a\<close> and creates \<^verbatim>\<open>b\<close> with the value
  \<open>1\<close> of \<^verbatim>\<open>"None"\<close>; and the two calls of the claim.
\<close>

theorem set_community_names_reconciles_witness:
  "\<not> key_exists mem_utils (reg (start reg_local)) HKEY COMMUNITIES_GPO_KEY
   \<and> distinct (map fst (mem_values reg_local HKEY COMMUNITIES_KEY))
   \<and> permission_value (normalized (PyStr '''')) = Some 1
   \<and> snd (get_community_names mem_utils (start reg_local)) =
       [(PyStr ''a'', PyStr ''Read Only'')]
   \<and> Delete_value HKEY COMMUNITIES_KEY (PyStr ''a'')
       \<in> set (issued (start reg_local)
                (fst (set_community_names mem_utils (start reg_local)
                        [(PyStr ''b'', PyStr '''')])))
   \<and> Set_value HKEY COMMUNITIES_KEY (PyStr ''b'') (PyInt 1) REG_DWORD
       \<in> set (issued (start reg_local)
                (fst (set_community_names mem_utils (start reg_local)
                        [(PyStr ''b'', PyStr '''')])))
   \<and> snd (set_community_names mem_utils (start reg_local) [(PyStr ''b'', PyStr '''')])
       = Inr True
   \<and> snd (set_community_names mem_utils (start reg_local)
            [(PyStr ''a'', PyStr ''Read Only''), (PyStr ''b'', PyStr ''Notify'')]) = Inr True
   \<and> snd (set_community_names mem_utils
            (fst (set_community_names mem_utils (start reg_local)
                    [(PyStr ''a'', PyStr ''Read Only''), (PyStr ''b'', PyStr ''Notify'')]))
            [(PyStr ''a'', PyStr ''Read Only'')]) = Inr True
   \<and> snd (get_community_names mem_utils
            (fst (set_community_names mem_utils
               (fst (set_community_names mem_utils (start reg_local)
                    [(PyStr ''a'', PyStr ''Read Only''), (PyStr ''b'', PyStr ''Notify'')]))
               [(PyStr ''a'', PyStr ''Read Only'')]))) = [(PyStr ''a'', PyStr ''Read Only'')]"
proof -
  let ?c = "[(PyStr ''b'', PyStr '''')]"
  have n: "\<not> key_exists mem_utils (reg (start reg_local)) HKEY COMMUNITIES_GPO_KEY"
    by (simp add: reg_local_def mem_defs)
  have n': "\<not> key_exists mem_utils reg_local HKEY COMMUNITIES_GPO_KEY"
    using n by (simp add: start_def)
  have dt: "distinct (map fst (mem_values reg_local HKEY COMMUNITIES_KEY))"
    by (simp add: reg_local_def mem_defs)
  have pv: "permission_value (normalized (PyStr '''')) = Some 1"
    by (simp add: normalized_def PERMISSION_TYPES_def)
  have d: "distinct (map fst ?c)" by simp
  have v: "\<forall>(k, p)\<in>set ?c. permission_value (normalized p) \<noteq> None"
    using pv by simp
  note t = set_community_names_reconciles [of mem_utils "start reg_local" ?c reg_local]
  have a: "Delete_value HKEY COMMUNITIES_KEY (PyStr ''a'')
       \<in> set (issued (start reg_local)
                (fst (set_community_names mem_utils (start reg_local) ?c)))"
    using t [THEN conjunct1] n d v by (simp add: mem_local_current)
  have b: "Set_value HKEY COMMUNITIES_KEY (PyStr ''b'') (PyInt 1) REG_DWORD
       \<in> set (issued (start reg_local)
                (fst (set_community_names mem_utils (start reg_local) ?c)))"
    using t [THEN conjunct1] n d v pv by (simp add: mem_local_current)
  have c: "snd (set_community_names mem_utils (start reg_local) ?c) = Inr True"
    using t [THEN conjunct2, THEN conjunct1] n' dt d v by simp
  have e: "snd (set_community_names mem_utils (start reg_local)
            [(PyStr ''a'', PyStr ''Read Only''), (PyStr ''b'', PyStr ''Notify'')]) = Inr True
   \<and> snd (set_community_names mem_utils
            (fst (set_community_names mem_utils (start reg_local)
                    [(PyStr ''a'', PyStr ''Read Only''), (PyStr ''b'', PyStr ''Notify'')]))
            [(PyStr ''a'', PyStr ''Read Only'')]) = Inr True
   \<and> snd (get_community_names mem_utils
            (fst (set_community_names mem_utils
               (fst (set_community_names mem_utils (start reg_local)
                    [(PyStr ''a'', PyStr ''Read Only''), (PyStr ''b'', PyStr ''Notify'')]))
               [(PyStr ''a'', PyStr ''Read Only'')]))) = [(PyStr ''a'', PyStr ''Read Only'')]"
    using t [THEN conjunct2, THEN conjunct2] n' dt by simp
  show ?thesis using n dt pv mem_local_current a b c e by (simp only: simp_thms)
qed

text \<open>
  Claim C3 does not hold of the code. The loop over the current communities compares
  the current permission, which \<^verbatim>\<open>get_community_names\<close> returns as a name, with the
  requested permission's integer; the two are never equal, so a community that is
  current and requested is written every time the loop runs. Here \<^verbatim>\<open>a\<close> is stored
  with \<open>4\<close> and requested as \<^verbatim>\<open>Read Only\<close>, which is \<open>4\<close>, beside a new community
  \<^verbatim>\<open>b\<close>: the call writes \<open>4\<close> to \<^verbatim>\<open>a\<close> again.
\<close>

theorem set_community_names_rewrites_equal:
  "mem_values reg_local HKEY COMMUNITIES_KEY = [(PyStr ''a'', PyInt 4)]
   \<and> snd (get_community_names mem_utils (start reg_local)) =
       [(PyStr ''a'', PyStr ''Read Only'')]
   \<and> permission_value (PyStr ''Read Only'') = Some 4
   \<and> writes (calls (fst (set_community_names mem_utils (start reg_local)
         [(PyStr ''a'', PyStr ''Read Only''), (PyStr ''b'', PyStr ''Notify'')]))) =
       [Set_value HKEY COMMUNITIES_KEY (PyStr ''a'') (PyInt 4) REG_DWORD,
        Set_value HKEY COMMUNITIES_KEY (PyStr ''b'') (PyInt 2) REG_DWORD]"
proof -
  have t: "mem_values reg_local HKEY COMMUNITIES_KEY = [(PyStr ''a'', PyInt 4)]"
    by (simp add: reg_local_def mem_defs)
  have p: "permission_value (PyStr ''Read Only'') = Some 4"
    by (simp add: PERMISSION_TYPES_def)
  have w: "writes (calls (fst (set_community_names mem_utils (start reg_local)
         [(PyStr ''a'', PyStr ''Read Only''), (PyStr ''b'', PyStr ''Notify'')]))) =
       [Set_value HKEY COMMUNITIES_KEY (PyStr ''a'') (PyInt 4) REG_DWORD,
        Set_value HKEY COMMUNITIES_KEY (PyStr ''b'') (PyInt 2) REG_DWORD]"
    by (simp add: set_community_names_def get_community_names_def reg_key_exists_def
          reg_list_values_def reg_set_value_def reg_delete_value_def dict_eq_def Let_def
          writes_def PERMISSION_TYPES_def reg_local_def mem_defs)
  show ?thesis using t mem_local_current p w by (simp only: simp_thms)
qed

section \<open>Authentication traps: the write and its verification\<close>

text \<open>
  Claim C9. When \<^verbatim>\<open>get_auth_traps_enabled()\<close> already equals the requested status,
  \<^verbatim>\<open>set_auth_traps_enabled(status)\<close> returns \<^verbatim>\<open>True\<close> after that one read, with no
  write and the registry as it was. Otherwise its calls are the read, one write of
  the status as the integer \<open>1\<close> or \<open>0\<close> with type \<^verbatim>\<open>REG_DWORD\<close> under
  \<^verbatim>\<open>EnableAuthenticationTraps\<close>, and the read again; and it returns \<^verbatim>\<open>True\<close> exactly
  when the status read in the final state equals the requested one.
\<close>

theorem set_auth_traps_enabled_spec:
  fixes u :: "'s utils" and w :: "'s world" and status :: bool
  defines "vname \<equiv> PyStr ''EnableAuthenticationTraps''"
  defines "r \<equiv> set_auth_traps_enabled u w status"
  shows "(snd (get_auth_traps_enabled u w) = status \<longrightarrow>
            snd r = True \<and> reg (fst r) = reg w
            \<and> calls (fst r) = calls w @ [Read_value HKEY SNMP_KEY vname])
       \<and> (snd (get_auth_traps_enabled u w) \<noteq> status \<longrightarrow>
            calls (fst r) = calls w @
              [Read_value HKEY SNMP_KEY vname,
               Set_value HKEY SNMP_KEY vname (PyInt (if status then 1 else 0)) REG_DWORD,
               Read_value HKEY SNMP_KEY vname]
            \<and> reg (fst r) = set_value u (reg w) HKEY SNMP_KEY vname
                               (PyInt (if status then 1 else 0)) REG_DWORD
            \<and> (snd r = True \<longleftrightarrow> snd (get_auth_traps_enabled u (fst r)) = status))"
  unfolding r_def vname_def
  by (auto simp add: set_auth_traps_enabled_def get_auth_traps_enabled_def reg_read_value_def
        reg_set_value_def Let_def split: prod.splits)

text \<open>
  Claim C9 on the registry in memory, where the value is not set and so reads as
  disabled: disabling is the no-op, enabling writes \<open>1\<close> and succeeds.
\<close>

theorem set_auth_traps_enabled_spec_witness:
  "snd (get_auth_traps_enabled mem_utils (start reg_physical)) = False
   \<and> set_auth_traps_enabled mem_utils (start reg_physical) False =
       (\<lparr>reg = reg_physical,
         calls = [Read_value HKEY SNMP_KEY (PyStr ''EnableAuthenticationTraps'')]\<rparr>, True)
   \<and> snd (get_auth_traps_enabled mem_utils (start reg_physical)) \<noteq> True
   \<and> writes (calls (fst (set_auth_traps_enabled mem_utils (start reg_physical) True))) =
       [Set_value HKEY SNMP_KEY (PyStr ''EnableAuthenticationTraps'') (PyInt 1) REG_DWORD]
   \<and> snd (get_auth_traps_enabled mem_utils
            (fst (set_auth_traps_enabled mem_utils (start reg_physical) True))) = True
   \<and> snd (set_auth_traps_enabled mem_utils (start reg_physical) True) = True"
proof -
  have g: "snd (get_auth_traps_enabled mem_utils (start reg_physical)) = False"
    by (simp add: get_auth_traps_enabled_def reg_read_value_def reg_physical_def mem_defs)
  have a: "set_auth_traps_enabled mem_utils (start reg_physical) False =
       (\<lparr>reg = reg_physical,
         calls = [Read_value HKEY SNMP_KEY (PyStr ''EnableAuthenticationTraps'')]\<rparr>, True)"
    using set_auth_traps_enabled_spec [of mem_utils "start reg_physical" False] g
    by (simp add: prod_eq_iff start_def)
  have r: "snd (get_auth_traps_enabled mem_utils
            (fst (set_auth_traps_enabled mem_utils (start reg_physical) True))) = True"
    by (simp add: set_auth_traps_enabled_def get_auth_traps_enabled_def reg_read_value_def
          reg_set_value_def reg_physical_def mem_defs Let_def)
  have b: "writes (calls (fst (set_auth_traps_enabled mem_utils (start reg_physical) True))) =
       [Set_value HKEY SNMP_KEY (PyStr ''EnableAuthenticationTraps'') (PyInt 1) REG_DWORD]
     \<and> snd (set_auth_traps_enabled mem_utils (start reg_physical) True) = True"
    using set_auth_traps_enabled_spec [of mem_utils "start reg_physical" True] g r
    by (simp add: writes_def start_def)
  show ?thesis using g a r b by simp
qed

end
